theory Spec2Isabelle
  imports Main "HOL-Library.Multiset" "HOL-Library.Char_ord" "HOL-Library.List_Lexorder"
begin

section \<open>Ransomware group statistics: the aggregation and reporting pipeline\<close>

text \<open>
  A shallow embedding of \<^verbatim>\<open>ransomware_group_statistics.py\<close>. The input type is the one
  the program is written for: a JSON array of objects whose fields \<^verbatim>\<open>discovered\<close>,
  \<^verbatim>\<open>activity\<close> and \<^verbatim>\<open>country\<close> are strings, null or absent. \<^verbatim>\<open>victim.get(f)\<close>
  is \<^verbatim>\<open>None\<close> both for an absent field and for a JSON null, so a field is a
  \<open>string option\<close>. Python dictionaries keep insertion order and the ranking depends on
  it, so every dictionary is an association list in insertion order.
\<close>

subsection \<open>Dictionaries, \<^verbatim>\<open>Counter\<close> and \<^verbatim>\<open>defaultdict\<close>\<close>

type_synonym ('k, 'v) dict = "('k \<times> 'v) list"

type_synonym 'k Counter = "('k, int) dict"

definition keys :: "('k, 'v) dict \<Rightarrow> 'k list" where
  "keys d = map fst d"

definition dict_values :: "('k, 'v) dict \<Rightarrow> 'v list" where
  "dict_values d = map snd d"

text \<open>\<^verbatim>\<open>d[k] = v\<close>: an existing key keeps its position, a new key goes last.\<close>

definition dict_setitem :: "('k, 'v) dict \<Rightarrow> 'k \<Rightarrow> 'v \<Rightarrow> ('k, 'v) dict" where
  "dict_setitem d k v =
     (if k \<in> set (keys d) then map (\<lambda>(k', v'). if k' = k then (k', v) else (k', v')) d
      else d @ [(k, v)])"

text \<open>\<^verbatim>\<open>Counter.__getitem__\<close>: a missing key reads as 0 and is not inserted.\<close>

definition counter_getitem :: "'k Counter \<Rightarrow> 'k \<Rightarrow> int" where
  "counter_getitem c k = (case map_of c k of Some n \<Rightarrow> n | None \<Rightarrow> 0)"

text \<open>\<^verbatim>\<open>c[k] += 1\<close> on a \<^verbatim>\<open>Counter\<close>.\<close>

definition counter_incr :: "'k Counter \<Rightarrow> 'k \<Rightarrow> 'k Counter" where
  "counter_incr c k = dict_setitem c k (counter_getitem c k + 1)"

text \<open>
  \<^verbatim>\<open>defaultdict.__getitem__\<close>: a missing key is inserted with the default value, so a
  read returns the value together with the dictionary after the read.
\<close>

definition dd_getitem :: "'v \<Rightarrow> ('k, 'v) dict \<Rightarrow> 'k \<Rightarrow> 'v \<times> ('k, 'v) dict" where
  "dd_getitem dflt d k =
     (case map_of d k of Some v \<Rightarrow> (v, d) | None \<Rightarrow> (dflt, d @ [(k, dflt)]))"

text \<open>
  \<^verbatim>\<open>d[k]\<close> on a \<^verbatim>\<open>defaultdict\<close> followed by an in-place update \<open>f\<close> of the object that
  the read returned (the object is shared with the dictionary).
\<close>

definition dd_modify :: "'v \<Rightarrow> ('k, 'v) dict \<Rightarrow> 'k \<Rightarrow> ('v \<Rightarrow> 'v) \<Rightarrow> ('k, 'v) dict" where
  "dd_modify dflt d k f = (case dd_getitem dflt d k of (v, d') \<Rightarrow> dict_setitem d' k (f v))"

text \<open>
  \<^verbatim>\<open>Counter.most_common(n)\<close> is \<^verbatim>\<open>heapq.nlargest(n, items, key=count)\<close>, which the
  library documents as \<^verbatim>\<open>sorted(items, key=count, reverse=True)[:n]\<close>: a stable sort by
  descending count, cut after \<open>n\<close> entries.
\<close>

definition most_common :: "nat \<Rightarrow> 'k Counter \<Rightarrow> ('k \<times> int) list" where
  "most_common n c = take n (sort_key (\<lambda>(k, v). - v) c)"

subsection \<open>Victim records and the monthly aggregation\<close>

record victim =
  discovered :: "string option"
  activity :: "string option"
  country :: "string option"

record month_data =
  total :: int
  sectors :: "string Counter"
  countries :: "string Counter"
  country_sectors :: "(string, string Counter) dict"

type_synonym monthly = "(string, month_data) dict"

text \<open>The value the \<^verbatim>\<open>defaultdict\<close> factory of \<^verbatim>\<open>monthly_data\<close> creates.\<close>

definition new_month :: month_data where
  "new_month = \<lparr>total = 0, sectors = [], countries = [], country_sectors = []\<rparr>"

definition Not_Identified :: string where
  "Not_Identified = ''Not Identified''"

text \<open>\<^verbatim>\<open>victim.get(f) or "Not Identified"\<close>: \<^verbatim>\<open>None\<close> and the empty string are falsy.\<close>

definition or_not_identified :: "string option \<Rightarrow> string" where
  "or_not_identified x =
     (case x of None \<Rightarrow> Not_Identified | Some s \<Rightarrow> if s = [] then Not_Identified else s)"

text \<open>
  One iteration of the loop of \<^verbatim>\<open>process_victims\<close>. The parameter \<open>month_key_of\<close> stands
  for the standard library: \<open>month_key_of s\<close> is
  \<^verbatim>\<open>datetime.fromisoformat(s).strftime("%Y-%m")\<close>, and \<open>None\<close> when that raises.
\<close>

definition victim_step :: "(string \<Rightarrow> string option) \<Rightarrow> monthly \<Rightarrow> victim \<Rightarrow> monthly" where
  "victim_step month_key_of monthly_data v =
     (case discovered v of
        None \<Rightarrow> monthly_data
      | Some d \<Rightarrow>
          if d = [] then monthly_data
          else
            (case month_key_of d of
               None \<Rightarrow> monthly_data
             | Some month_key \<Rightarrow>
                 (let md1 = dd_modify new_month monthly_data month_key
                              (\<lambda>data. data\<lparr>total := total data + 1\<rparr>);
                      sector = or_not_identified (activity v);
                      cntry = or_not_identified (country v);
                      md2 = dd_modify new_month md1 month_key
                              (\<lambda>data. data\<lparr>sectors := counter_incr (sectors data) sector\<rparr>);
                      md3 = dd_modify new_month md2 month_key
                              (\<lambda>data. data\<lparr>countries := counter_incr (countries data) cntry\<rparr>);
                      md4 = dd_modify new_month md3 month_key
                              (\<lambda>data. data\<lparr>country_sectors :=
                                 dd_modify [] (country_sectors data) cntry
                                   (\<lambda>c. counter_incr c sector)\<rparr>)
                  in md4)))"

fun process_loop :: "(string \<Rightarrow> string option) \<Rightarrow> monthly \<Rightarrow> victim list \<Rightarrow> monthly" where
  "process_loop month_key_of monthly_data [] = monthly_data"
| "process_loop month_key_of monthly_data (v # victims) =
     process_loop month_key_of (victim_step month_key_of monthly_data v) victims"

definition process_victims :: "(string \<Rightarrow> string option) \<Rightarrow> victim list \<Rightarrow> monthly" where
  "process_victims month_key_of victims = process_loop month_key_of [] victims"

subsection \<open>Strings\<close>

text \<open>\<^verbatim>\<open>str(n)\<close> for an integer: decimal digits, with a minus sign when negative.\<close>

fun str_nat :: "nat \<Rightarrow> string" where
  "str_nat n =
     (if n < 10 then [char_of (48 + n)] else str_nat (n div 10) @ [char_of (48 + n mod 10)])"

declare str_nat.simps [simp del]

definition str_int :: "int \<Rightarrow> string" where
  "str_int i = (if i < 0 then CHR ''-'' # str_nat (nat (- i)) else str_nat (nat i))"

text \<open>\<^verbatim>\<open>sep.join(xs)\<close>.\<close>

fun join :: "string \<Rightarrow> string list \<Rightarrow> string" where
  "join sep [] = []"
| "join sep [x] = x"
| "join sep (x # y # ys) = x @ sep @ join sep (y # ys)"

text \<open>
  \<^verbatim>\<open>str.strip()\<close> and \<^verbatim>\<open>str.lower()\<close> on ASCII text (a \<open>char\<close> is a byte; bytes
  beyond ASCII are left as they are).
\<close>

definition isspace :: "char \<Rightarrow> bool" where
  "isspace c = (of_char c \<in> {9, 10, 11, 12, 13, 28, 29, 30, 31, 32 :: nat})"

definition strip :: "string \<Rightarrow> string" where
  "strip s = rev (dropWhile isspace (rev (dropWhile isspace s)))"

definition lower :: "string \<Rightarrow> string" where
  "lower s =
     map (\<lambda>c. if CHR ''A'' \<le> c \<and> c \<le> CHR ''Z'' then char_of (of_char c + (32::nat)) else c) s"

text \<open>The colour codes of \<^verbatim>\<open>colorama\<close> that the text report uses.\<close>

definition ESC :: char where "ESC = CHR 0x1B"
definition Fore_CYAN :: string where "Fore_CYAN = ESC # ''[36m''"
definition Fore_GREEN :: string where "Fore_GREEN = ESC # ''[32m''"
definition Fore_MAGENTA :: string where "Fore_MAGENTA = ESC # ''[35m''"
definition Fore_BLUE :: string where "Fore_BLUE = ESC # ''[34m''"
definition Fore_YELLOW :: string where "Fore_YELLOW = ESC # ''[33m''"
definition Style_RESET_ALL :: string where "Style_RESET_ALL = ESC # ''[0m''"

subsection \<open>The fetcher\<close>

text \<open>
  The network is a parameter: \<open>http_get env url\<close> is what \<^verbatim>\<open>requests.get\<close> does for the
  URL. It raises (\<open>Request_Error\<close> with the exception text) or returns a response with a
  status code and a body; \<^verbatim>\<open>response.json()\<close> is only evaluated when the program calls
  it, and either raises (\<open>Json_Error\<close>) or yields the parsed array of records.
  \<open>file_error env path\<close> is the text of the exception that writing the file \<open>path\<close>
  raises, and \<open>None\<close> when the write succeeds.
\<close>

datatype json_result = Json_Body "victim list" | Json_Error string

datatype http_outcome = Response int json_result | Request_Error string

record env =
  http_get :: "string \<Rightarrow> http_outcome"
  file_error :: "string \<Rightarrow> string option"

definition base_url :: string where
  "base_url = ''https://api.ransomware.live/v2/groupvictims/''"

text \<open>The result is the list of printed lines and the returned sequence.\<close>

definition get_victims_by_group :: "env \<Rightarrow> string \<Rightarrow> string list \<times> victim list" where
  "get_victims_by_group e group_name =
     (let url = base_url @ group_name in
      case http_get e url of
        Request_Error ex \<Rightarrow> ([''An error occurred: '' @ ex], [])
      | Response status_code body \<Rightarrow>
          if status_code = 200 then
            (case body of
               Json_Body victims \<Rightarrow> ([], victims)
             | Json_Error ex \<Rightarrow> ([''An error occurred: '' @ ex], []))
          else ([''Error: '' @ str_int status_code], []))"

subsection \<open>The presenters\<close>

record sector_entry =
  sector :: string
  sector_count :: int

record country_entry =
  country_name :: string
  country_count :: int
  country_top_sectors :: "sector_entry list"

record month_summary =
  total_victims :: int
  top_sectors :: "sector_entry list"
  top_countries :: "country_entry list"

type_synonym json_output = "(string, month_summary) dict"

definition sector_entries :: "(string \<times> int) list \<Rightarrow> sector_entry list" where
  "sector_entries items = map (\<lambda>(sec, n). \<lparr>sector = sec, sector_count = n\<rparr>) items"

text \<open>
  The loop over \<^verbatim>\<open>top_countries\<close> in \<^verbatim>\<open>build_json_output\<close>. Reading
  \<^verbatim>\<open>data["country_sectors"][country]\<close> is a \<^verbatim>\<open>defaultdict\<close> read, so the loop carries
  the table along and returns it.
\<close>

fun json_countries_loop ::
  "(string, string Counter) dict \<Rightarrow> country_entry list \<Rightarrow> (string \<times> int) list \<Rightarrow>
     country_entry list \<times> (string, string Counter) dict" where
  "json_countries_loop cs countries_list [] = (countries_list, cs)"
| "json_countries_loop cs countries_list ((cntry, n) # rest) =
     (case dd_getitem [] cs cntry of
        (counter, cs') \<Rightarrow>
          (let sectors_breakdown = most_common 3 counter;
               top_country_sectors = sector_entries sectors_breakdown
           in json_countries_loop cs'
                (countries_list @
                   [\<lparr>country_name = cntry, country_count = n,
                     country_top_sectors = top_country_sectors\<rparr>])
                rest))"

text \<open>
  The loop over \<^verbatim>\<open>sorted(monthly_data)\<close>. \<^verbatim>\<open>data\<close> is the object stored in
  \<^verbatim>\<open>monthly_data\<close>, so what the inner loop did to its \<^verbatim>\<open>country_sectors\<close> table is
  written back.
\<close>

fun json_loop :: "monthly \<Rightarrow> json_output \<Rightarrow> string list \<Rightarrow> json_output \<times> monthly" where
  "json_loop monthly_data output [] = (output, monthly_data)"
| "json_loop monthly_data output (month # months) =
     (case dd_getitem new_month monthly_data month of
        (data, md1) \<Rightarrow>
          (let top_secs = most_common 10 (sectors data);
               top_cntrs = most_common 10 (countries data)
           in case json_countries_loop (country_sectors data) [] top_cntrs of
                (countries_list, cs') \<Rightarrow>
                  json_loop
                    (dict_setitem md1 month (data\<lparr>country_sectors := cs'\<rparr>))
                    (dict_setitem output month
                       \<lparr>total_victims = total data,
                        top_sectors = sector_entries top_secs,
                        top_countries = countries_list\<rparr>)
                    months))"

definition build_json_output :: "monthly \<Rightarrow> json_output \<times> monthly" where
  "build_json_output monthly_data = json_loop monthly_data [] (sort (keys monthly_data))"

text \<open>The text report: the list of the strings printed, one per \<^verbatim>\<open>print\<close> call.\<close>

fun text_countries_loop ::
  "(string, string Counter) dict \<Rightarrow> string list \<Rightarrow> (string \<times> int) list \<Rightarrow>
     string list \<times> (string, string Counter) dict" where
  "text_countries_loop cs out [] = (out, cs)"
| "text_countries_loop cs out ((cntry, n) # rest) =
     (case dd_getitem [] cs cntry of
        (counter, cs') \<Rightarrow>
          (let out1 = out @ [''    - '' @ cntry @ '': '' @ str_int n];
               sectors_breakdown = most_common 3 counter;
               out2 =
                 (if sectors_breakdown \<noteq> [] then
                    out1 @ [''       '' @ Fore_YELLOW @ ''Affected sectors:''] @
                      map (\<lambda>(sec, sec_count). ''         * '' @ sec @ '': '' @ str_int sec_count)
                        sectors_breakdown
                  else out1)
           in text_countries_loop cs' out2 rest))"

fun text_loop :: "monthly \<Rightarrow> string list \<Rightarrow> string list \<Rightarrow> string list \<times> monthly" where
  "text_loop monthly_data out [] = (out, monthly_data)"
| "text_loop monthly_data out (month # months) =
     (case dd_getitem new_month monthly_data month of
        (data, md1) \<Rightarrow>
          (let top_secs = most_common 10 (sectors data);
               top_cntrs = most_common 10 (countries data);
               out1 = out @
                 [[CHR 0x0A] @ Fore_CYAN @ ''Month: '' @ month @ Style_RESET_ALL,
                  ''  '' @ Fore_GREEN @ ''Total victims: '' @ str_int (total data) @ Style_RESET_ALL,
                  ''  '' @ Fore_MAGENTA @ ''Top sectors:''] @
                 map (\<lambda>(sec, n). ''    - '' @ sec @ '': '' @ str_int n) top_secs @
                 [''  '' @ Fore_BLUE @ ''Top countries:'']
           in case text_countries_loop (country_sectors data) out1 top_cntrs of
                (out2, cs') \<Rightarrow>
                  text_loop
                    (dict_setitem md1 month (data\<lparr>country_sectors := cs'\<rparr>))
                    (out2 @ [Style_RESET_ALL])
                    months))"

definition print_monthly_summary :: "monthly \<Rightarrow> string list \<times> monthly" where
  "print_monthly_summary monthly_data =
     (if monthly_data = [] then
        ([Fore_YELLOW @ ''No data to display.'' @ Style_RESET_ALL], monthly_data)
      else text_loop monthly_data [] (sort (keys monthly_data)))"

text \<open>
  The CSV report. The rows handed to \<^verbatim>\<open>csv.DictWriter\<close> are modelled, not the quoting
  and line ends the writer adds. \<^verbatim>\<open>json_data\<close> is a plain dictionary and the loop reads
  it at its own keys in sorted order.
\<close>

record csv_row =
  Month :: string
  Total_Victims :: int
  Top_Sectors :: string
  Top_Countries :: string

definition csv_header :: "string list" where
  "csv_header = [''Month'', ''Total Victims'', ''Top Sectors'', ''Top Countries'']"

definition sectors_detail :: "sector_entry list \<Rightarrow> string" where
  "sectors_detail items = join '', '' (map (\<lambda>s. sector s @ '': '' @ str_int (sector_count s)) items)"

definition csv_row_of :: "string \<Rightarrow> month_summary \<Rightarrow> csv_row" where
  "csv_row_of month summary =
     (let sectors_str = sectors_detail (top_sectors summary);
          countries_list =
            map (\<lambda>country_info.
                   country_name country_info @ '' ('' @ str_int (country_count country_info) @
                   ''): ['' @ sectors_detail (country_top_sectors country_info) @ '']'')
              (top_countries summary);
          countries_str = join ''; '' countries_list
      in \<lparr>Month = month, Total_Victims = total_victims summary,
          Top_Sectors = sectors_str, Top_Countries = countries_str\<rparr>)"

definition csv_rows :: "json_output \<Rightarrow> csv_row list" where
  "csv_rows json_data = map (\<lambda>(month, summary). csv_row_of month summary) (sort_key fst json_data)"

datatype event =
    Print string
  | Print_Json json_output
  | Write_Json string json_output
  | Csv_Stdout "string list" "csv_row list"
  | Write_Csv string "string list" "csv_row list"

definition write_csv_output :: "env \<Rightarrow> json_output \<Rightarrow> string option \<Rightarrow> event list" where
  "write_csv_output e json_data output_file =
     (let rows = csv_rows json_data in
      case output_file of
        None \<Rightarrow> [Csv_Stdout csv_header rows]
      | Some path \<Rightarrow>
          if path = [] then [Csv_Stdout csv_header rows]
          else
            (case file_error e path of
               None \<Rightarrow>
                 [Write_Csv path csv_header rows,
                  Print (''CSV output successfully saved to: '' @ path)]
             | Some ex \<Rightarrow> [Print (''An error occurred while writing the CSV file: '' @ ex)]))"

subsection \<open>The program\<close>

datatype format = normal | json | csv

record args =
  group :: string
  fmt :: format
  output_file :: "string option"

definition no_victims_message :: string where
  "no_victims_message =
     ''No victims found or an error occurred when querying the ransomware.live API. Is it DOWN?''"

text \<open>What a run does after the fetch returned a non-empty sequence.\<close>

definition render :: "(string \<Rightarrow> string option) \<Rightarrow> env \<Rightarrow> args \<Rightarrow> victim list \<Rightarrow> event list" where
  "render month_key_of e a victims =
     (let monthly_data = process_victims month_key_of victims in
      case fmt a of
        normal \<Rightarrow> map Print (fst (print_monthly_summary monthly_data))
      | json \<Rightarrow>
          (let output_json = fst (build_json_output monthly_data) in
           case output_file a of
             None \<Rightarrow> [Print_Json output_json]
           | Some path \<Rightarrow>
               if path = [] then [Print_Json output_json]
               else
                 (case file_error e path of
                    None \<Rightarrow>
                      [Write_Json path output_json,
                       Print (''JSON output successfully saved to file: '' @ path)]
                  | Some ex \<Rightarrow>
                      [Print (''An error occurred while writing the JSON file: '' @ ex)]))
      | csv \<Rightarrow> write_csv_output e (fst (build_json_output monthly_data)) (output_file a))"

definition main :: "(string \<Rightarrow> string option) \<Rightarrow> env \<Rightarrow> args \<Rightarrow> event list" where
  "main month_key_of e a =
     (let group_name = lower (strip (group a));
          searching = Print (''Searching for victims for the group: '' @ group_name @ '' ...'')
      in case get_victims_by_group e group_name of
           (printed, victims) \<Rightarrow>
             if victims = [] then searching # map Print printed @ [Print no_victims_message]
             else searching # map Print printed @ render month_key_of e a victims)"

section \<open>Notions used to state the properties\<close>

subsection \<open>What a record contributes\<close>

text \<open>The month a record is counted in; \<open>None\<close> for a record the loop skips.\<close>

definition month_of :: "(string \<Rightarrow> string option) \<Rightarrow> victim \<Rightarrow> string option" where
  "month_of month_key_of v =
     (case discovered v of None \<Rightarrow> None | Some d \<Rightarrow> if d = [] then None else month_key_of d)"

definition sector_of :: "victim \<Rightarrow> string" where
  "sector_of v = or_not_identified (activity v)"

definition country_of :: "victim \<Rightarrow> string" where
  "country_of v = or_not_identified (country v)"

text \<open>A field that is missing, null or the empty string.\<close>

definition falsy :: "string option \<Rightarrow> bool" where
  "falsy x \<longleftrightarrow> x = None \<or> x = Some []"

text \<open>The records of the input that are counted in month \<open>m\<close>, in input order.\<close>

definition month_records :: "(string \<Rightarrow> string option) \<Rightarrow> string \<Rightarrow> victim list \<Rightarrow> victim list" where
  "month_records month_key_of m victims = filter (\<lambda>v. month_of month_key_of v = Some m) victims"

text \<open>The four updates that one counted record makes to the entry of its month.\<close>

definition add_victim :: "victim \<Rightarrow> month_data \<Rightarrow> month_data" where
  "add_victim v data =
     data\<lparr>total := total data + 1,
          sectors := counter_incr (sectors data) (sector_of v),
          countries := counter_incr (countries data) (country_of v),
          country_sectors :=
            dd_modify [] (country_sectors data) (country_of v)
              (\<lambda>c. counter_incr c (sector_of v))\<rparr>"

subsection \<open>Dictionaries as seen from outside\<close>

text \<open>Reading a \<^verbatim>\<open>defaultdict\<close> without the insertion.\<close>

definition dd_peek :: "'v \<Rightarrow> ('k, 'v) dict \<Rightarrow> 'k \<Rightarrow> 'v" where
  "dd_peek dflt d k = (case map_of d k of Some v \<Rightarrow> v | None \<Rightarrow> dflt)"

text \<open>The elements of a sequence in the order of their first occurrence.\<close>

primrec first_seen :: "'a list \<Rightarrow> 'a list" where
  "first_seen [] = []"
| "first_seen (x # xs) = x # filter (\<lambda>y. y \<noteq> x) (first_seen xs)"

text \<open>
  Grouping a sequence into a \<^verbatim>\<open>defaultdict\<close>: element \<open>x\<close> updates the entry of
  \<open>key x\<close> by \<open>f x\<close>.
\<close>

definition agg :: "'v \<Rightarrow> ('x \<Rightarrow> 'k) \<Rightarrow> ('x \<Rightarrow> 'v \<Rightarrow> 'v) \<Rightarrow> 'x list \<Rightarrow> ('k, 'v) dict \<Rightarrow> ('k, 'v) dict" where
  "agg dflt key f xs d = fold (\<lambda>x d. dd_modify dflt d (key x) (f x)) xs d"

text \<open>The \<^verbatim>\<open>Counter\<close> that counting the sequence \<open>xs\<close> from left to right builds.\<close>

definition count_seq :: "'k list \<Rightarrow> 'k Counter" where
  "count_seq xs = map (\<lambda>k. (k, int (count_list xs k))) (first_seen xs)"

text \<open>
  The entry of a month described from its records \<open>rs\<close>: the number of records, the
  counts of their sectors and countries, and for each country the counts of the sectors
  of its records; keys in the order of their first occurrence.
\<close>

definition month_agg :: "victim list \<Rightarrow> month_data" where
  "month_agg rs =
     \<lparr>total = int (length rs),
      sectors = count_seq (map sector_of rs),
      countries = count_seq (map country_of rs),
      country_sectors =
        map (\<lambda>c. (c, count_seq (map sector_of (filter (\<lambda>v. country_of v = c) rs))))
          (first_seen (map country_of rs))\<rparr>"

text \<open>The months of the counted records, in the order of their first occurrence.\<close>

definition months_seen :: "(string \<Rightarrow> string option) \<Rightarrow> victim list \<Rightarrow> string list" where
  "months_seen month_key_of victims = first_seen (List.map_filter (month_of month_key_of) victims)"

text \<open>
  The content of an aggregation without the order of the keys: month by month the total
  and the three tables as maps.
\<close>

type_synonym month_view =
  "int \<times> (string \<rightharpoonup> int) \<times> (string \<rightharpoonup> int) \<times> (string \<rightharpoonup> (string \<rightharpoonup> int))"

definition view_of_month :: "month_data \<Rightarrow> month_view" where
  "view_of_month data =
     (total data, map_of (sectors data), map_of (countries data),
      (\<lambda>c. map_option map_of (map_of (country_sectors data) c)))"

definition month_view :: "monthly \<Rightarrow> string \<Rightarrow> month_view option" where
  "month_view md m = map_option view_of_month (map_of md m)"

subsection \<open>Ranking\<close>

text \<open>
  What a month of the shaped result shows apart from the names: the total and the
  counts of the listed sectors and countries, in their order.
\<close>

definition ranking_counts :: "month_summary \<Rightarrow> int \<times> int list \<times> int list" where
  "ranking_counts s =
     (total_victims s, map sector_count (top_sectors s), map country_count (top_countries s))"


text \<open>The position of the first occurrence of \<open>x\<close> in \<open>xs\<close>.\<close>

definition first_index :: "'a list \<Rightarrow> 'a \<Rightarrow> nat" where
  "first_index xs x = length (takeWhile (\<lambda>y. y \<noteq> x) xs)"

text \<open>
  In the sequence \<open>xs\<close> of keys as the scan met them, \<open>a\<close> ranks before \<open>b\<close>: it occurs
  more often, or as often and it was met first.
\<close>

definition outranks :: "'k list \<Rightarrow> 'k \<Rightarrow> 'k \<Rightarrow> bool" where
  "outranks xs a b \<longleftrightarrow>
     count_list xs b < count_list xs a \<or>
     (count_list xs a = count_list xs b \<and> first_index xs a < first_index xs b)"

text \<open>
  \<open>items\<close> is the top-\<open>n\<close> list of the key sequence \<open>xs\<close>: as many entries as there are
  keys, up to \<open>n\<close>; each entry a key with its number of occurrences; in ranking order; and
  every key left out is outranked by every key listed.
\<close>

definition top_ranked :: "nat \<Rightarrow> 'k list \<Rightarrow> ('k \<times> int) list \<Rightarrow> bool" where
  "top_ranked n xs items \<longleftrightarrow>
     length items = min n (length (remdups xs)) \<and>
     distinct (map fst items) \<and>
     (\<forall>(k, c) \<in> set items. k \<in> set xs \<and> c = int (count_list xs k)) \<and>
     sorted_wrt (\<lambda>a b. outranks xs (fst a) (fst b)) items \<and>
     (\<forall>k \<in> set xs. k \<notin> fst ` set items \<longrightarrow> (\<forall>k' \<in> fst ` set items. outranks xs k' k))"

text \<open>
  The ranked and shaped summary of one month: the ten most common sectors, the ten most
  common countries and, for each of these countries, its three most common sectors.
\<close>

definition shape_month :: "month_data \<Rightarrow> month_summary" where
  "shape_month data =
     \<lparr>total_victims = total data,
      top_sectors = sector_entries (most_common 10 (sectors data)),
      top_countries =
        map (\<lambda>(c, n).
               \<lparr>country_name = c, country_count = n,
                country_top_sectors =
                  sector_entries (most_common 3 (dd_peek [] (country_sectors data) c))\<rparr>)
          (most_common 10 (countries data))\<rparr>"

text \<open>
  The aggregations the presenters are given: distinct months, and in every month each
  counted country has its nested sector table.
\<close>

definition well_formed :: "monthly \<Rightarrow> bool" where
  "well_formed md \<longleftrightarrow>
     distinct (keys md) \<and>
     (\<forall>(m, data) \<in> set md. set (keys (countries data)) \<subseteq> set (keys (country_sectors data)))"

definition entry_pairs :: "sector_entry list \<Rightarrow> (string \<times> int) list" where
  "entry_pairs es = map (\<lambda>e. (sector e, sector_count e)) es"

definition country_pairs :: "country_entry list \<Rightarrow> (string \<times> int) list" where
  "country_pairs es = map (\<lambda>e. (country_name e, country_count e)) es"

text \<open>
  The text report written from the shaped result: for each month the total, the top
  sectors, and the top countries each with its sector breakdown.
\<close>

definition country_lines :: "country_entry \<Rightarrow> string list" where
  "country_lines ce =
     (''    - '' @ country_name ce @ '': '' @ str_int (country_count ce)) #
     (if country_top_sectors ce \<noteq> [] then
        (''       '' @ Fore_YELLOW @ ''Affected sectors:'') #
        map (\<lambda>e. ''         * '' @ sector e @ '': '' @ str_int (sector_count e))
          (country_top_sectors ce)
      else [])"

definition month_lines :: "string \<Rightarrow> month_summary \<Rightarrow> string list" where
  "month_lines m s =
     [[CHR 0x0A] @ Fore_CYAN @ ''Month: '' @ m @ Style_RESET_ALL,
      ''  '' @ Fore_GREEN @ ''Total victims: '' @ str_int (total_victims s) @ Style_RESET_ALL,
      ''  '' @ Fore_MAGENTA @ ''Top sectors:''] @
     map (\<lambda>e. ''    - '' @ sector e @ '': '' @ str_int (sector_count e)) (top_sectors s) @
     [''  '' @ Fore_BLUE @ ''Top countries:''] @
     concat (map country_lines (top_countries s)) @
     [Style_RESET_ALL]"

definition text_report :: "json_output \<Rightarrow> string list" where
  "text_report shaped =
     (if shaped = [] then [Fore_YELLOW @ ''No data to display.'' @ Style_RESET_ALL]
      else concat (map (\<lambda>(m, s). month_lines m s) shaped))"

subsection \<open>A parser for plain dates\<close>

text \<open>
  \<^verbatim>\<open>datetime.fromisoformat\<close> followed by \<^verbatim>\<open>strftime("%Y-%m")\<close>, restricted to the strings
  of the form \<^verbatim>\<open>YYYY-MM-DD\<close> that are a date of the years 1000 to 9999; every other
  string is rejected. It instantiates the parameter \<open>month_key_of\<close> in examples.
\<close>

definition is_digit :: "char \<Rightarrow> bool" where
  "is_digit c = (CHR ''0'' \<le> c \<and> c \<le> CHR ''9'')"

definition digit_val :: "char \<Rightarrow> nat" where
  "digit_val c = of_char c - 48"

definition days_in_month :: "nat \<Rightarrow> nat \<Rightarrow> nat" where
  "days_in_month y m =
     (if m = 2 then (if y mod 4 = 0 \<and> (y mod 100 \<noteq> 0 \<or> y mod 400 = 0) then 29 else 28)
      else if m \<in> {4, 6, 9, 11} then 30 else 31)"

definition iso_date_month :: "string \<Rightarrow> string option" where
  "iso_date_month s =
     (if length s = 10 \<and> s ! 4 = CHR ''-'' \<and> s ! 7 = CHR ''-'' \<and>
         list_all is_digit (take 4 s @ take 2 (drop 5 s) @ drop 8 s) then
        (let y = fold (\<lambda>c n. 10 * n + digit_val c) (take 4 s) 0;
             m = fold (\<lambda>c n. 10 * n + digit_val c) (take 2 (drop 5 s)) 0;
             d = fold (\<lambda>c n. 10 * n + digit_val c) (drop 8 s) 0
         in if 1000 \<le> y \<and> 1 \<le> m \<and> m \<le> 12 \<and> 1 \<le> d \<and> d \<le> days_in_month y m
            then Some (take 7 s) else None)
      else None)"

subsection \<open>An example input\<close>

definition example_victims :: "victim list" where
  "example_victims =
     [\<lparr>discovered = Some ''2023-01-05'', activity = Some ''Healthcare'', country = Some ''US''\<rparr>,
      \<lparr>discovered = None, activity = Some ''Energy'', country = Some ''FR''\<rparr>,
      \<lparr>discovered = Some ''2023-02-01'', activity = Some ''Finance'', country = Some ''DE''\<rparr>,
      \<lparr>discovered = Some ''2023-01-20'', activity = None, country = Some ''US''\<rparr>,
      \<lparr>discovered = Some ''not a date'', activity = Some ''Energy'', country = Some ''FR''\<rparr>,
      \<lparr>discovered = Some ''2023-01-31'', activity = Some ''Healthcare'', country = Some []\<rparr>]"

text \<open>Records that the aggregator skips: no date, an empty date, a malformed date.\<close>

definition unparsable_victims :: "victim list" where
  "unparsable_victims =
     [\<lparr>discovered = None, activity = Some ''Energy'', country = Some ''FR''\<rparr>,
      \<lparr>discovered = Some [], activity = Some ''Finance'', country = None\<rparr>,
      \<lparr>discovered = Some ''not a date'', activity = None, country = Some ''DE''\<rparr>]"

text \<open>Environments: the API answers every request in the same way; file writes succeed.\<close>

definition env_answering :: "http_outcome \<Rightarrow> env" where
  "env_answering r = \<lparr>http_get = (\<lambda>url. r), file_error = (\<lambda>path. None)\<rparr>"

section \<open>Properties of the dictionaries\<close>

lemma replace_absent:
  "k \<notin> fst ` set d \<Longrightarrow> map (\<lambda>(k', v'). if k' = k then (k', v) else (k', v')) d = d"
  by (induction d) auto

lemma keys_dict_setitem:
  "keys (dict_setitem d k v) = (if k \<in> set (keys d) then keys d else keys d @ [k])"
  by (auto simp: dict_setitem_def keys_def intro!: map_idI)

lemma map_of_replace:
  "map_of (map (\<lambda>(k', v'). if k' = k then (k', v) else (k', v')) d) =
     (if k \<in> fst ` set d then (map_of d)(k \<mapsto> v) else map_of d)"
  by (induction d) (auto simp: fun_eq_iff)

lemma map_of_snoc:
  "map_of (d @ [(k, v)]) k' =
     (case map_of d k' of Some x \<Rightarrow> Some x | None \<Rightarrow> if k' = k then Some v else None)"
  by (induction d) auto

lemma map_of_in_keys: "map_of d k = Some v \<Longrightarrow> k \<in> fst ` set d"
  by (metis map_of_eq_None_iff option.distinct(1))

lemma map_of_dict_setitem: "map_of (dict_setitem d k v) = (map_of d)(k \<mapsto> v)"
proof (cases "k \<in> fst ` set d")
  case True
  then show ?thesis by (simp add: dict_setitem_def keys_def map_of_replace)
next
  case False
  then have "map_of d k = None" by (simp add: map_of_eq_None_iff)
  then show ?thesis using False
    by (auto simp: dict_setitem_def keys_def map_add_def fun_eq_iff split: option.splits)
qed

lemma dd_modify_eq:
  "dd_modify dflt d k f =
     (if k \<in> set (keys d)
      then map (\<lambda>(k', v'). if k' = k then (k', f (dd_peek dflt d k)) else (k', v')) d
      else d @ [(k, f dflt)])"
proof (cases "map_of d k")
  case None
  then have "k \<notin> fst ` set d" by (simp add: map_of_eq_None_iff)
  then show ?thesis using None
    by (simp add: dd_modify_def dd_getitem_def dict_setitem_def keys_def replace_absent)
next
  case (Some v)
  then have in_d: "k \<in> fst ` set d" by (rule map_of_in_keys)
  have pk: "dd_peek dflt d k = v" using Some by (simp add: dd_peek_def)
  show ?thesis using Some in_d unfolding pk
    by (simp add: dd_modify_def dd_getitem_def dict_setitem_def keys_def)
qed

lemma keys_dd_modify:
  "keys (dd_modify dflt d k f) = (if k \<in> set (keys d) then keys d else keys d @ [k])"
  by (auto simp: dd_modify_eq keys_def intro!: map_idI)

lemma map_of_None_keys: "(map_of d k = None) = (k \<notin> set (keys d))"
  by (simp add: keys_def map_of_eq_None_iff)

lemma dd_peek_absent: "k \<notin> set (keys d) \<Longrightarrow> dd_peek dflt d k = dflt"
  by (simp add: dd_peek_def map_of_None_keys [symmetric])

lemma map_of_dd_modify:
  "map_of (dd_modify dflt d k f) = (map_of d)(k \<mapsto> f (dd_peek dflt d k))"
proof (cases "k \<in> set (keys d)")
  case True
  then show ?thesis
    by (simp add: dd_modify_eq map_of_replace keys_def)
next
  case False
  then have "map_of d k = None" by (simp add: map_of_None_keys)
  then show ?thesis using False
    by (auto simp: dd_modify_eq dd_peek_absent map_add_def fun_eq_iff split: option.splits)
qed

lemma dd_peek_dd_modify:
  "dd_peek dflt (dd_modify dflt d k f) k' =
     (if k' = k then f (dd_peek dflt d k) else dd_peek dflt d k')"
  by (simp add: dd_peek_def map_of_dd_modify)

lemma dd_modify_twice:
  "dd_modify dflt (dd_modify dflt d k f) k g = dd_modify dflt d k (\<lambda>v. g (f v))"
proof -
  have in2: "k \<in> set (keys (dd_modify dflt d k f))" by (simp add: keys_dd_modify)
  have pk: "dd_peek dflt (dd_modify dflt d k f) k = f (dd_peek dflt d k)"
    by (simp add: dd_peek_dd_modify)
  have "dd_modify dflt (dd_modify dflt d k f) k g =
      map (\<lambda>(k', v'). if k' = k then (k', g (f (dd_peek dflt d k))) else (k', v'))
        (dd_modify dflt d k f)"
    using in2 by (simp add: dd_modify_eq [of dflt "dd_modify dflt d k f"] pk cong: if_cong)
  also have "\<dots> = dd_modify dflt d k (\<lambda>v. g (f v))"
  proof (cases "k \<in> set (keys d)")
    case True
    then show ?thesis
      by (auto simp: dd_modify_eq [of dflt d] split: prod.splits)
  next
    case False
    then have "k \<notin> fst ` set d" by (simp add: keys_def)
    then show ?thesis using False
      by (simp add: dd_modify_eq [of dflt d] replace_absent dd_peek_absent)
  qed
  finally show ?thesis .
qed

lemma counter_incr_eq: "counter_incr c k = dd_modify 0 c k (\<lambda>n. n + 1)"
proof (cases "map_of c k")
  case None
  then have "k \<notin> fst ` set c" by (simp add: map_of_eq_None_iff)
  then show ?thesis using None
    by (simp add: counter_incr_def dd_modify_def dd_getitem_def counter_getitem_def
        dict_setitem_def keys_def replace_absent)
next
  case (Some n)
  then show ?thesis
    by (simp add: counter_incr_def dd_modify_def dd_getitem_def counter_getitem_def)
qed

section \<open>Grouping\<close>

lemma set_first_seen [simp]: "set (first_seen xs) = set xs"
  by (induction xs) auto

lemma distinct_first_seen [simp]: "distinct (first_seen xs)"
  by (induction xs) auto

lemma first_seen_filter: "first_seen (filter P xs) = filter P (first_seen xs)"
proof (induction xs)
  case Nil
  then show ?case by simp
next
  case (Cons x xs)
  show ?case
  proof (cases "P x")
    case True
    then show ?thesis using Cons by (simp add: conj_commute)
  next
    case False
    have "filter P (filter (\<lambda>y. y \<noteq> x) (first_seen xs)) = filter P (first_seen xs)"
      using False by (auto intro!: filter_cong)
    then show ?thesis using False Cons by simp
  qed
qed

lemma agg_Nil [simp]: "agg dflt key f [] d = d"
  by (simp add: agg_def)

lemma agg_Cons [simp]:
  "agg dflt key f (x # xs) d = agg dflt key f xs (dd_modify dflt d (key x) (f x))"
  by (simp add: agg_def)

lemma agg_append: "agg dflt key f (xs @ ys) d = agg dflt key f ys (agg dflt key f xs d)"
  by (simp add: agg_def)

lemma keys_agg:
  "keys (agg dflt key f xs d) =
     keys d @ first_seen (filter (\<lambda>k. k \<notin> set (keys d)) (map key xs))"
proof (induction xs arbitrary: d)
  case Nil
  then show ?case by simp
next
  case (Cons x xs)
  show ?case
  proof (cases "key x \<in> set (keys d)")
    case True
    then show ?thesis by (simp add: Cons keys_dd_modify)
  next
    case False
    have "filter (\<lambda>k. k \<noteq> key x \<and> k \<notin> set (keys d)) (map key xs) =
          filter (\<lambda>y. y \<noteq> key x) (filter (\<lambda>k. k \<notin> set (keys d)) (map key xs))"
      by (simp add: conj_commute)
    then show ?thesis using False
      by (simp add: Cons keys_dd_modify first_seen_filter)
  qed
qed

lemma dd_peek_agg:
  "dd_peek dflt (agg dflt key f xs d) k = fold f (filter (\<lambda>x. key x = k) xs) (dd_peek dflt d k)"
  by (induction xs arbitrary: d) (simp_all add: dd_peek_dd_modify)

lemma distinct_keys_agg: "distinct (keys d) \<Longrightarrow> distinct (keys (agg dflt key f xs d))"
  by (auto simp: keys_agg)

lemma map_of_present: "k \<in> set (keys d) \<Longrightarrow> map_of d k = Some (dd_peek dflt d k)"
  by (cases "map_of d k") (simp_all add: map_of_None_keys dd_peek_def)

lemma dict_eqI_aux:
  "map fst d = map fst d' \<Longrightarrow> distinct (map fst d) \<Longrightarrow>
   (\<forall>k \<in> set (map fst d). map_of d k = map_of d' k) \<Longrightarrow> d = d'"
proof (induction d arbitrary: d')
  case Nil
  then show ?case by simp
next
  case (Cons a d)
  from Cons.prems(1) obtain b d'' where d': "d' = b # d''" by (cases d') auto
  from Cons.prems(1) d' have fst_eq: "fst a = fst b" and keys_eq: "map fst d = map fst d''"
    by simp_all
  from Cons.prems(3) d' fst_eq have "snd a = snd b"
    by (cases a; cases b) (auto split: if_splits)
  with fst_eq have ab: "a = b" by (simp add: prod_eq_iff)
  have "\<forall>k \<in> set (map fst d). map_of d k = map_of d'' k"
  proof
    fix k assume k: "k \<in> set (map fst d)"
    with Cons.prems(2) have ne: "k \<noteq> fst a" by force
    from k have "k \<in> set (map fst (a # d))" by simp
    with Cons.prems(3) have "map_of (a # d) k = map_of d' k" by blast
    then have eq: "map_of (a # d) k = map_of (a # d'') k" using d' ab by simp
    from ne have "map_of (a # d) k = map_of d k" "map_of (a # d'') k = map_of d'' k"
      by (cases a; simp)+
    with eq show "map_of d k = map_of d'' k" by simp
  qed
  with Cons.IH [OF keys_eq] Cons.prems(2) have "d = d''" by simp
  with ab d' show ?case by simp
qed

lemma dict_eqI:
  assumes "keys d = keys d'" "distinct (keys d)"
    and "\<And>k. k \<in> set (keys d) \<Longrightarrow> map_of d k = map_of d' k"
  shows "d = d'"
  using assms by (intro dict_eqI_aux) (simp_all add: keys_def)

section \<open>The aggregation in closed form\<close>

lemma victim_step_eq:
  "victim_step p md v =
     (case month_of p v of None \<Rightarrow> md | Some m \<Rightarrow> dd_modify new_month md m (add_victim v))"
proof -
  have comp: "(\<lambda>d. (((d\<lparr>total := total d + 1\<rparr>)
                 \<lparr>sectors := counter_incr (sectors (d\<lparr>total := total d + 1\<rparr>)) s\<rparr>)
                 \<lparr>countries := counter_incr (countries d) c\<rparr>)
                 \<lparr>country_sectors := dd_modify [] (country_sectors d) c (\<lambda>k. counter_incr k s)\<rparr>)
        = (\<lambda>d. d\<lparr>total := total d + 1, sectors := counter_incr (sectors d) s,
                 countries := counter_incr (countries d) c,
                 country_sectors := dd_modify [] (country_sectors d) c (\<lambda>k. counter_incr k s)\<rparr>)"
    for s c
    by (rule ext) simp
  have add: "add_victim v =
      (\<lambda>d. d\<lparr>total := total d + 1,
             sectors := counter_incr (sectors d) (or_not_identified (activity v)),
             countries := counter_incr (countries d) (or_not_identified (country v)),
             country_sectors := dd_modify [] (country_sectors d) (or_not_identified (country v))
               (\<lambda>k. counter_incr k (or_not_identified (activity v)))\<rparr>)"
    by (rule ext) (simp add: add_victim_def sector_of_def country_of_def)
  show ?thesis
    by (simp add: victim_step_def month_of_def Let_def dd_modify_twice add
        split: option.splits)
qed

lemma dd_peek_Nil [simp]: "dd_peek dflt [] k = dflt"
  by (simp add: dd_peek_def)

lemma keys_Nil [simp]: "keys [] = []"
  by (simp add: keys_def)

lemma keys_tabulate [simp]: "keys (map (\<lambda>k. (k, f k)) ks) = ks"
  by (simp add: keys_def comp_def)

lemma process_loop_fold: "process_loop p md vs = fold (\<lambda>v md. victim_step p md v) vs md"
  by (induction vs arbitrary: md) simp_all

lemma process_loop_agg:
  "process_loop p md vs =
     agg new_month (\<lambda>v. the (month_of p v)) add_victim
       (filter (\<lambda>v. month_of p v \<noteq> None) vs) md"
  by (induction vs arbitrary: md) (auto simp: victim_step_eq)

lemma total_fold_add: "total (fold add_victim rs d) = total d + int (length rs)"
  by (induction rs arbitrary: d) (simp_all add: add_victim_def)

lemma sectors_fold_add:
  "sectors (fold add_victim rs d) = agg 0 sector_of (\<lambda>_ n. n + 1) rs (sectors d)"
  by (induction rs arbitrary: d) (simp_all add: add_victim_def counter_incr_eq)

lemma countries_fold_add:
  "countries (fold add_victim rs d) = agg 0 country_of (\<lambda>_ n. n + 1) rs (countries d)"
  by (induction rs arbitrary: d) (simp_all add: add_victim_def counter_incr_eq)

lemma country_sectors_fold_add:
  "country_sectors (fold add_victim rs d) =
     agg [] country_of (\<lambda>v c. counter_incr c (sector_of v)) rs (country_sectors d)"
  by (induction rs arbitrary: d) (simp_all add: add_victim_def)

lemma fold_incr: "fold (\<lambda>_ n. n + 1) xs (n::int) = n + int (length xs)"
  by (induction xs arbitrary: n) simp_all

lemma count_list_map: "count_list (map f xs) k = length (filter (\<lambda>x. f x = k) xs)"
  by (induction xs) simp_all

lemma keys_count_seq [simp]: "keys (count_seq xs) = first_seen xs"
  by (simp add: count_seq_def keys_def comp_def)

lemma map_of_count_seq:
  "map_of (count_seq xs) k = (if k \<in> set xs then Some (int (count_list xs k)) else None)"
proof -
  have "map_of (map (\<lambda>k. (k, f k)) ks) k = (if k \<in> set ks then Some (f k) else None)"
    for f :: "'a \<Rightarrow> int" and ks
    by (induction ks) auto
  from this [of "\<lambda>k. int (count_list xs k)" "first_seen xs"] show ?thesis
    by (simp add: count_seq_def)
qed

lemma agg_count_seq: "agg 0 key (\<lambda>_ n. n + 1) rs [] = count_seq (map key rs)"
  (is "?l = ?r")
proof (rule dict_eqI)
  show "keys ?l = keys ?r" by (simp add: keys_agg)
  show "distinct (keys ?l)" by (simp add: keys_agg)
  fix k assume k: "k \<in> set (keys ?l)"
  then have "k \<in> key ` set rs" by (simp add: keys_agg)
  moreover have "map_of ?l k = Some (dd_peek 0 ?l k)"
    using k by (rule map_of_present)
  ultimately show "map_of ?l k = map_of ?r k"
    by (simp add: dd_peek_agg fold_incr map_of_count_seq count_list_map)
qed

lemma fold_counter_incr:
  "fold (\<lambda>v c. counter_incr c (key v)) rs c0 = agg 0 key (\<lambda>_ n. n + 1) rs c0"
  by (simp add: agg_def counter_incr_eq)

lemma map_of_tabulate:
  "map_of (map (\<lambda>k. (k, f k)) ks) k = (if k \<in> set ks then Some (f k) else None)"
  by (induction ks) auto

lemma agg_country_sectors:
  "agg [] country_of (\<lambda>v c. counter_incr c (sector_of v)) rs [] =
     map (\<lambda>c. (c, count_seq (map sector_of (filter (\<lambda>v. country_of v = c) rs))))
       (first_seen (map country_of rs))"
  (is "?l = ?r")
proof (rule dict_eqI)
  show "keys ?l = keys ?r" by (simp add: keys_agg)
  show "distinct (keys ?l)" by (simp add: keys_agg)
  fix k assume k: "k \<in> set (keys ?l)"
  then have in_rs: "k \<in> country_of ` set rs" by (simp add: keys_agg)
  have "map_of ?l k = Some (dd_peek [] ?l k)" using k by (rule map_of_present)
  also have "dd_peek [] ?l k = count_seq (map sector_of (filter (\<lambda>v. country_of v = k) rs))"
    by (simp add: dd_peek_agg fold_counter_incr agg_count_seq)
  finally show "map_of ?l k = map_of ?r k" using in_rs
    by (simp add: map_of_tabulate)
qed

lemma fold_add_victim_new: "fold add_victim rs new_month = month_agg rs"
proof -
  have "total (fold add_victim rs new_month) = total (month_agg rs)"
    by (simp add: total_fold_add month_agg_def new_month_def)
  moreover have "sectors (fold add_victim rs new_month) = sectors (month_agg rs)"
    by (simp add: sectors_fold_add month_agg_def new_month_def agg_count_seq)
  moreover have "countries (fold add_victim rs new_month) = countries (month_agg rs)"
    by (simp add: countries_fold_add month_agg_def new_month_def agg_count_seq)
  moreover have "country_sectors (fold add_victim rs new_month) = country_sectors (month_agg rs)"
    by (simp add: country_sectors_fold_add month_agg_def new_month_def agg_country_sectors)
  moreover have "month_data.more (fold add_victim rs new_month) = month_data.more (month_agg rs)"
    by simp
  ultimately show ?thesis by (rule month_data.equality)
qed

lemma process_victims_closed:
  "process_victims p vs = map (\<lambda>m. (m, month_agg (month_records p m vs))) (months_seen p vs)"
  (is "?l = ?r")
proof (rule dict_eqI)
  have mf: "List.map_filter (month_of p) vs =
      map (\<lambda>v. the (month_of p v)) (filter (\<lambda>v. month_of p v \<noteq> None) vs)"
    by (simp add: List.map_filter_def comp_def)
  show keys_l: "keys ?l = keys ?r"
    by (simp add: process_victims_def process_loop_agg keys_agg months_seen_def mf)
  show "distinct (keys ?l)"
    by (simp add: process_victims_def process_loop_agg keys_agg)
  fix m assume m: "m \<in> set (keys ?l)"
  then have in_seen: "m \<in> set (months_seen p vs)" by (simp add: keys_l)
  have "map_of ?l m = Some (dd_peek new_month ?l m)" using m by (rule map_of_present)
  also have "dd_peek new_month ?l m =
      fold add_victim
        (filter (\<lambda>v. the (month_of p v) = m) (filter (\<lambda>v. month_of p v \<noteq> None) vs)) new_month"
    by (simp add: process_victims_def process_loop_agg dd_peek_agg)
  also have "filter (\<lambda>v. the (month_of p v) = m) (filter (\<lambda>v. month_of p v \<noteq> None) vs) =
      month_records p m vs"
    by (auto simp: month_records_def intro!: filter_cong)
  finally show "map_of ?l m = map_of ?r m" using in_seen
    by (simp add: map_of_tabulate fold_add_victim_new)
qed

section \<open>Totals and tables agree\<close>

lemma sum_count_seq: "sum_list (dict_values (count_seq xs)) = int (length xs)"
proof -
  have "sum_list (dict_values (count_seq xs)) =
      sum_list (map (\<lambda>k. int (count_list xs k)) (first_seen xs))"
    by (simp add: count_seq_def dict_values_def comp_def)
  also have "\<dots> = (\<Sum>k \<in> set xs. int (count_list xs k))"
    by (simp add: sum_list_distinct_conv_sum_set)
  also have "\<dots> = int (\<Sum>k \<in> set xs. count_list xs k)"
    by simp
  also have "(\<Sum>k \<in> set xs. count_list xs k) = length xs"
    by (rule sum_count_set) simp_all
  finally show ?thesis .
qed

lemma counter_getitem_count_seq: "counter_getitem (count_seq xs) k = int (count_list xs k)"
  by (simp add: counter_getitem_def map_of_count_seq count_list_0_iff)

lemma in_process_victims:
  assumes "(m, data) \<in> set (process_victims p vs)"
  shows "data = month_agg (month_records p m vs)" and "m \<in> set (months_seen p vs)"
  using assms by (auto simp: process_victims_closed)

text \<open>
  C1. In every month of the aggregation that \<open>process_victims\<close> returns, the total is
  the sum of the values of the sector table and the sum of the values of the country
  table, and every country of the month has a nested sector table whose values sum to
  the count of the country.
\<close>

theorem month_totals_match_tables:
  assumes "(m, data) \<in> set (process_victims month_key_of victims)"
  shows "total data = sum_list (dict_values (sectors data)) \<and>
         total data = sum_list (dict_values (countries data)) \<and>
         (\<forall>c \<in> set (keys (countries data)).
            \<exists>tbl. map_of (country_sectors data) c = Some tbl \<and>
                  sum_list (dict_values tbl) = counter_getitem (countries data) c)"
proof -
  define rs where "rs = month_records month_key_of m victims"
  have data: "data = month_agg rs"
    using assms by (simp add: in_process_victims rs_def)
  have t1: "total data = sum_list (dict_values (sectors data))"
    by (simp add: data month_agg_def sum_count_seq)
  have t2: "total data = sum_list (dict_values (countries data))"
    by (simp add: data month_agg_def sum_count_seq)
  have t3: "\<exists>tbl. map_of (country_sectors data) c = Some tbl \<and>
      sum_list (dict_values tbl) = counter_getitem (countries data) c"
    if "c \<in> set (keys (countries data))" for c
  proof -
    from that have c: "c \<in> country_of ` set rs" by (simp add: data month_agg_def)
    have "map_of (country_sectors data) c =
        Some (count_seq (map sector_of (filter (\<lambda>v. country_of v = c) rs)))"
      using c by (simp add: data month_agg_def map_of_tabulate)
    moreover have "sum_list (dict_values (count_seq (map sector_of (filter (\<lambda>v. country_of v = c) rs))))
        = counter_getitem (countries data) c"
      by (simp add: sum_count_seq data month_agg_def counter_getitem_count_seq count_list_map)
    ultimately show ?thesis by blast
  qed
  from t1 t2 t3 show ?thesis by blast
qed

lemma example_aggregation:
  "process_victims iso_date_month example_victims =
     [(''2023-01'',
       \<lparr>total = 3,
        sectors = [(''Healthcare'', 2), (''Not Identified'', 1)],
        countries = [(''US'', 2), (''Not Identified'', 1)],
        country_sectors =
          [(''US'', [(''Healthcare'', 1), (''Not Identified'', 1)]),
           (''Not Identified'', [(''Healthcare'', 1)])]\<rparr>),
      (''2023-02'',
       \<lparr>total = 1, sectors = [(''Finance'', 1)], countries = [(''DE'', 1)],
        country_sectors = [(''DE'', [(''Finance'', 1)])]\<rparr>)]"
  by code_simp

theorem month_totals_match_tables_witness:
  "(''2023-01'',
     \<lparr>total = 3,
      sectors = [(''Healthcare'', 2), (''Not Identified'', 1)],
      countries = [(''US'', 2), (''Not Identified'', 1)],
      country_sectors =
        [(''US'', [(''Healthcare'', 1), (''Not Identified'', 1)]),
         (''Not Identified'', [(''Healthcare'', 1)])]\<rparr>)
     \<in> set (process_victims iso_date_month example_victims) \<and>
   sum_list (dict_values [(''Healthcare'', 2), (''Not Identified'', 1 :: int)]) = 3 \<and>
   sum_list (dict_values [(''US'', 2), (''Not Identified'', 1 :: int)]) = 3 \<and>
   sum_list (dict_values [(''Healthcare'', 1), (''Not Identified'', 1 :: int)]) =
     counter_getitem [(''US'', 2), (''Not Identified'', 1)] ''US''"
proof -
  let ?d = "\<lparr>total = 3,
      sectors = [(''Healthcare'', 2), (''Not Identified'', 1)],
      countries = [(''US'', 2), (''Not Identified'', 1)],
      country_sectors =
        [(''US'', [(''Healthcare'', 1), (''Not Identified'', 1)]),
         (''Not Identified'', [(''Healthcare'', 1)])]\<rparr>"
  have h: "(''2023-01'', ?d) \<in> set (process_victims iso_date_month example_victims)"
    by (simp add: example_aggregation)
  from month_totals_match_tables [OF h] show ?thesis
    using h by (simp add: keys_def dict_values_def counter_getitem_def)
qed

section \<open>Skipped records, defaults and the order of the input\<close>

lemma month_of_None_iff:
  "month_of p v = None \<longleftrightarrow>
     falsy (discovered v) \<or> (\<exists>d. discovered v = Some d \<and> p d = None)"
  by (auto simp: month_of_def falsy_def split: option.splits)

text \<open>
  C2. A record whose \<open>discovered\<close> field is missing, falsy or rejected by the parser
  contributes nothing: wherever it stands in the input, the aggregation is the one of
  the input without it.
\<close>

theorem unparsable_record_dropped:
  assumes "falsy (discovered v) \<or> (\<exists>d. discovered v = Some d \<and> month_key_of d = None)"
  shows "process_victims month_key_of (xs @ v # ys) = process_victims month_key_of (xs @ ys)"
proof -
  from assms have "month_of month_key_of v = None" by (simp add: month_of_None_iff)
  then show ?thesis by (simp add: process_victims_def process_loop_agg)
qed

theorem unparsable_record_dropped_witness:
  "falsy (discovered \<lparr>discovered = Some [], activity = Some ''Energy'', country = Some ''FR''\<rparr>) \<and>
   process_victims iso_date_month
     (take 3 example_victims @
      \<lparr>discovered = Some [], activity = Some ''Energy'', country = Some ''FR''\<rparr> #
      drop 3 example_victims) =
   process_victims iso_date_month example_victims"
proof -
  let ?v = "\<lparr>discovered = Some [], activity = Some ''Energy'', country = Some ''FR''\<rparr>"
  have h: "falsy (discovered ?v) \<or> (\<exists>d. discovered ?v = Some d \<and> iso_date_month d = None)"
    by (simp add: falsy_def)
  from unparsable_record_dropped [OF h, of "take 3 example_victims" "drop 3 example_victims"]
  show ?thesis by (simp add: falsy_def)
qed

lemma month_records_append:
  "month_records p m (xs @ ys) = month_records p m xs @ month_records p m ys"
  by (simp add: month_records_def)

lemma process_victims_cong:
  assumes "month_of p v = month_of p v'" "sector_of v = sector_of v'" "country_of v = country_of v'"
  shows "process_victims p (xs @ v # ys) = process_victims p (xs @ v' # ys)"
proof -
  have "add_victim v = add_victim v'"
    by (rule ext) (simp add: add_victim_def assms)
  then have step: "victim_step p md v = victim_step p md v'" for md
    using assms by (simp add: victim_step_eq split: option.splits)
  show ?thesis
    by (simp add: process_victims_def process_loop_fold step)
qed

lemma or_not_identified_falsy: "falsy x \<Longrightarrow> or_not_identified x = Not_Identified"
  by (auto simp: falsy_def or_not_identified_def)

lemma or_not_identified_literal: "or_not_identified (Some Not_Identified) = Not_Identified"
  by (simp add: or_not_identified_def)

lemma count_list_pos: "x \<in> set xs \<Longrightarrow> 0 < count_list xs x"
  by (metis count_list_0_iff gr0I)

text \<open>
  C3. A record that is counted in month \<open>m\<close> and whose \<open>activity\<close> is missing or falsy
  is aggregated exactly as the same record with the activity \<open>"Not Identified"\<close>, and
  likewise for \<open>country\<close>; and the record is counted in the sector table, the country
  table and the nested table of its month under these keys.
\<close>

theorem not_identified_substituted:
  assumes "month_of month_key_of v = Some m"
  shows "(falsy (activity v) \<longrightarrow>
            sector_of v = ''Not Identified'' \<and>
            process_victims month_key_of (xs @ v # ys) =
              process_victims month_key_of (xs @ v\<lparr>activity := Some ''Not Identified''\<rparr> # ys)) \<and>
         (falsy (country v) \<longrightarrow>
            country_of v = ''Not Identified'' \<and>
            process_victims month_key_of (xs @ v # ys) =
              process_victims month_key_of (xs @ v\<lparr>country := Some ''Not Identified''\<rparr> # ys)) \<and>
         (\<exists>data tbl.
            map_of (process_victims month_key_of (xs @ v # ys)) m = Some data \<and>
            0 < counter_getitem (sectors data) (sector_of v) \<and>
            0 < counter_getitem (countries data) (country_of v) \<and>
            map_of (country_sectors data) (country_of v) = Some tbl \<and>
            0 < counter_getitem tbl (sector_of v))"
proof -
  let ?vs = "xs @ v # ys"
  have ni: "''Not Identified'' = Not_Identified" by (simp add: Not_Identified_def)
  have a: "sector_of v = ''Not Identified'' \<and>
      process_victims month_key_of ?vs =
        process_victims month_key_of (xs @ v\<lparr>activity := Some ''Not Identified''\<rparr> # ys)"
    if "falsy (activity v)"
  proof
    show s: "sector_of v = ''Not Identified''"
      using that by (simp add: sector_of_def or_not_identified_falsy ni)
    show "process_victims month_key_of ?vs =
        process_victims month_key_of (xs @ v\<lparr>activity := Some ''Not Identified''\<rparr> # ys)"
    proof (rule process_victims_cong)
      show "sector_of v = sector_of (v\<lparr>activity := Some ''Not Identified''\<rparr>)"
        by (simp add: s) (simp add: sector_of_def or_not_identified_def)
    qed (simp_all add: month_of_def country_of_def)
  qed
  have c: "country_of v = ''Not Identified'' \<and>
      process_victims month_key_of ?vs =
        process_victims month_key_of (xs @ v\<lparr>country := Some ''Not Identified''\<rparr> # ys)"
    if "falsy (country v)"
  proof
    show s: "country_of v = ''Not Identified''"
      using that by (simp add: country_of_def or_not_identified_falsy ni)
    show "process_victims month_key_of ?vs =
        process_victims month_key_of (xs @ v\<lparr>country := Some ''Not Identified''\<rparr> # ys)"
    proof (rule process_victims_cong)
      show "country_of v = country_of (v\<lparr>country := Some ''Not Identified''\<rparr>)"
        by (simp add: s) (simp add: country_of_def or_not_identified_def)
    qed (simp_all add: month_of_def sector_of_def)
  qed
  define rs where "rs = month_records month_key_of m ?vs"
  define data where "data = month_agg rs"
  define tbl where "tbl = count_seq (map sector_of (filter (\<lambda>r. country_of r = country_of v) rs))"
  have v_in: "v \<in> set rs"
    using assms by (simp add: rs_def month_records_def)
  have "m \<in> set (months_seen month_key_of ?vs)"
    using assms by (simp add: months_seen_def List.map_filter_def)
  then have d1: "map_of (process_victims month_key_of ?vs) m = Some data"
    by (simp add: process_victims_closed map_of_tabulate data_def rs_def)
  have d2: "0 < counter_getitem (sectors data) (sector_of v)"
    using v_in by (simp add: data_def month_agg_def counter_getitem_count_seq count_list_pos)
  have d3: "0 < counter_getitem (countries data) (country_of v)"
    using v_in by (simp add: data_def month_agg_def counter_getitem_count_seq count_list_pos)
  have d4: "map_of (country_sectors data) (country_of v) = Some tbl"
    using v_in by (simp add: data_def month_agg_def map_of_tabulate tbl_def)
  have d5: "0 < counter_getitem tbl (sector_of v)"
    using v_in by (simp add: tbl_def counter_getitem_count_seq count_list_pos)
  from a c d1 d2 d3 d4 d5 show ?thesis by blast
qed

theorem not_identified_substituted_witness:
  "month_of iso_date_month \<lparr>discovered = Some ''2023-01-20'', activity = None, country = Some []\<rparr>
     = Some ''2023-01'' \<and>
   falsy (activity \<lparr>discovered = Some ''2023-01-20'', activity = None, country = Some []\<rparr>) \<and>
   falsy (country \<lparr>discovered = Some ''2023-01-20'', activity = None, country = Some []\<rparr>) \<and>
   process_victims iso_date_month
     (take 3 example_victims @
      \<lparr>discovered = Some ''2023-01-20'', activity = None, country = Some []\<rparr> #
      drop 4 example_victims) =
   process_victims iso_date_month
     (take 3 example_victims @
      \<lparr>discovered = Some ''2023-01-20'', activity = None, country = Some []\<rparr>
        \<lparr>activity := Some ''Not Identified''\<rparr> #
      drop 4 example_victims) \<and>
   process_victims iso_date_month
     (take 3 example_victims @
      \<lparr>discovered = Some ''2023-01-20'', activity = None, country = Some []\<rparr> #
      drop 4 example_victims) =
   process_victims iso_date_month
     (take 3 example_victims @
      \<lparr>discovered = Some ''2023-01-20'', activity = None, country = Some []\<rparr>
        \<lparr>country := Some ''Not Identified''\<rparr> #
      drop 4 example_victims)"
proof -
  let ?v = "\<lparr>discovered = Some ''2023-01-20'', activity = None, country = Some []\<rparr>"
  have h: "month_of iso_date_month ?v = Some ''2023-01''"
    by code_simp
  have f: "falsy (activity ?v)" "falsy (country ?v)"
    by (simp_all add: falsy_def)
  note t = not_identified_substituted [OF h, of "take 3 example_victims" "drop 4 example_victims"]
  from t f h show ?thesis by blast
qed

lemma mset_month_records:
  "mset vs = mset vs' \<Longrightarrow> mset (month_records p m vs) = mset (month_records p m vs')"
  by (simp add: month_records_def)

lemma set_months_seen:
  "set (months_seen p vs) = {m. \<exists>v \<in> set vs. month_of p v = Some m}"
  by (force simp: months_seen_def List.map_filter_def image_iff)

lemma map_of_count_seq_mset:
  assumes "mset xs = mset ys"
  shows "map_of (count_seq xs) = map_of (count_seq ys)"
proof
  fix k
  from assms have "set xs = set ys" by (rule mset_eq_setD)
  moreover from assms have "count_list xs k = count_list ys k"
    by (metis count_mset)
  ultimately show "map_of (count_seq xs) k = map_of (count_seq ys) k"
    by (simp add: map_of_count_seq)
qed

lemma view_of_month_agg_mset:
  assumes "mset rs = mset rs'"
  shows "view_of_month (month_agg rs) = view_of_month (month_agg rs')"
proof -
  have len: "length rs = length rs'"
    using assms by (rule mset_eq_length)
  have sec: "map_of (count_seq (map sector_of rs)) = map_of (count_seq (map sector_of rs'))"
    using assms by (intro map_of_count_seq_mset) (metis mset_map)
  have cou: "map_of (count_seq (map country_of rs)) = map_of (count_seq (map country_of rs'))"
    using assms by (intro map_of_count_seq_mset) (metis mset_map)
  have set_eq: "set rs = set rs'"
    using assms by (rule mset_eq_setD)
  have nested: "map_of (count_seq (map sector_of (filter (\<lambda>v. country_of v = c) rs))) =
      map_of (count_seq (map sector_of (filter (\<lambda>v. country_of v = c) rs')))" for c
    using assms by (intro map_of_count_seq_mset) (metis mset_map mset_filter)
  have "(\<lambda>c. map_option map_of (map_of (country_sectors (month_agg rs)) c)) =
      (\<lambda>c. map_option map_of (map_of (country_sectors (month_agg rs')) c))"
    by (rule ext) (simp add: month_agg_def map_of_tabulate set_eq nested)
  then show ?thesis
    by (simp add: view_of_month_def) (simp add: month_agg_def len sec cou)
qed

lemma month_view_process_victims:
  "month_view (process_victims p vs) m =
     (if m \<in> set (months_seen p vs) then Some (view_of_month (month_agg (month_records p m vs)))
      else None)"
  by (simp add: month_view_def process_victims_closed map_of_tabulate)

lemma keys_process_victims: "keys (process_victims p vs) = months_seen p vs"
  by (simp add: process_victims_closed)

section \<open>The presenters read the aggregation and leave it as it is\<close>

lemma well_formed_process_victims: "well_formed (process_victims p vs)"
  unfolding well_formed_def
proof (intro conjI ballI)
  show "distinct (keys (process_victims p vs))"
    by (simp add: keys_process_victims months_seen_def)
next
  fix x assume x: "x \<in> set (process_victims p vs)"
  obtain m data where md: "x = (m, data)" by (cases x)
  with x have "data = month_agg (month_records p m vs)"
    by (simp add: in_process_victims(1))
  with md show "case x of (m, data) \<Rightarrow>
      set (keys (countries data)) \<subseteq> set (keys (country_sectors data))"
    by (simp add: month_agg_def)
qed

lemma dd_getitem_present:
  "k \<in> set (keys d) \<Longrightarrow> dd_getitem dflt d k = (dd_peek dflt d k, d)"
  by (cases "map_of d k") (simp_all add: dd_getitem_def dd_peek_def map_of_None_keys)

lemma replace_same:
  "distinct (map fst d) \<Longrightarrow> map_of d k = Some v \<Longrightarrow>
   map (\<lambda>(k', v'). if k' = k then (k', v) else (k', v')) d = d"
proof (induction d)
  case Nil
  then show ?case by simp
next
  case (Cons a d)
  show ?case
  proof (cases "fst a = k")
    case True
    with Cons.prems have "snd a = v" "k \<notin> fst ` set d" by (cases a; auto)+
    with True show ?thesis by (cases a) (auto simp: replace_absent)
  next
    case False
    with Cons.prems have "map_of d k = Some v" by (cases a) auto
    with Cons False show ?thesis by (cases a) auto
  qed
qed

lemma dict_setitem_same:
  "distinct (keys d) \<Longrightarrow> map_of d k = Some v \<Longrightarrow> dict_setitem d k v = d"
  using map_of_in_keys [of d k v] by (simp add: dict_setitem_def keys_def replace_same)

lemma in_set_take: "x \<in> set (take n xs) \<Longrightarrow> x \<in> set xs"
  by (rule in_set_takeD)

lemma most_common_subset: "set (most_common n c) \<subseteq> set c"
  by (auto simp: most_common_def dest: in_set_takeD)

lemma most_common_keys: "(k, v) \<in> set (most_common n c) \<Longrightarrow> k \<in> set (keys c)"
  using most_common_subset [of n c] by (force simp: keys_def)

lemma json_countries_loop_closed:
  assumes "\<forall>(c, n) \<in> set items. c \<in> set (keys cs)"
  shows "json_countries_loop cs acc items =
     (acc @ map (\<lambda>(c, n). \<lparr>country_name = c, country_count = n,
                   country_top_sectors = sector_entries (most_common 3 (dd_peek [] cs c))\<rparr>) items,
      cs)"
  using assms
  by (induction cs acc items rule: json_countries_loop.induct)
     (simp_all add: dd_getitem_present)

lemma text_countries_loop_state:
  assumes "\<forall>(c, n) \<in> set items. c \<in> set (keys cs)"
  shows "snd (text_countries_loop cs out items) = cs"
  using assms
  by (induction cs out items rule: text_countries_loop.induct)
     (simp_all add: dd_getitem_present Let_def)

lemma text_countries_loop_stateD:
  assumes "\<forall>(c, n) \<in> set items. c \<in> set (keys cs)"
    and "text_countries_loop cs out items = (out', cs')"
  shows "cs' = cs"
  using text_countries_loop_state [OF assms(1), of out] assms(2) by simp

lemma well_formed_entry:
  assumes "well_formed md" "m \<in> set (keys md)"
  shows "map_of md m = Some (dd_peek new_month md m)"
    and "\<forall>(c, n) \<in> set (most_common k (countries (dd_peek new_month md m))).
            c \<in> set (keys (country_sectors (dd_peek new_month md m)))"
proof -
  show present: "map_of md m = Some (dd_peek new_month md m)"
    using assms(2) by (rule map_of_present)
  then have "(m, dd_peek new_month md m) \<in> set md" by (rule map_of_SomeD)
  with assms(1) have "set (keys (countries (dd_peek new_month md m))) \<subseteq>
      set (keys (country_sectors (dd_peek new_month md m)))"
    by (auto simp: well_formed_def)
  then show "\<forall>(c, n) \<in> set (most_common k (countries (dd_peek new_month md m))).
      c \<in> set (keys (country_sectors (dd_peek new_month md m)))"
    by (auto dest: most_common_keys)
qed

lemma json_loop_closed:
  assumes "well_formed md" "set months \<subseteq> set (keys md)"
  shows "json_loop md out months =
     (fold (\<lambda>m out. dict_setitem out m (shape_month (dd_peek new_month md m))) months out, md)"
  using assms(2)
proof (induction months arbitrary: out)
  case Nil
  then show ?case by simp
next
  case (Cons m months)
  then have m: "m \<in> set (keys md)" and rest: "set months \<subseteq> set (keys md)" by simp_all
  let ?data = "dd_peek new_month md m"
  note wf = well_formed_entry [OF assms(1) m]
  have wb: "dict_setitem md m ?data = md"
    using assms(1) wf(1) by (simp add: well_formed_def dict_setitem_same)
  show ?case
    by (simp add: dd_getitem_present [OF m] json_countries_loop_closed [OF wf(2)] Let_def
        wb Cons.IH [OF rest] shape_month_def)
qed

lemma text_loop_state:
  assumes "well_formed md" "set months \<subseteq> set (keys md)"
  shows "snd (text_loop md out months) = md"
  using assms(2)
proof (induction months arbitrary: out)
  case Nil
  then show ?case by simp
next
  case (Cons m months)
  then have m: "m \<in> set (keys md)" and rest: "set months \<subseteq> set (keys md)" by simp_all
  let ?data = "dd_peek new_month md m"
  note wf = well_formed_entry [OF assms(1) m]
  have wb: "dict_setitem md m ?data = md"
    using assms(1) wf(1) by (simp add: well_formed_def dict_setitem_same)
  show ?case
    by (auto simp: dd_getitem_present [OF m] Let_def wb Cons.IH [OF rest] split: prod.splits
        dest!: text_countries_loop_stateD [OF wf(2) [of 10]])
qed

lemma set_sort_keys: "set (sort (keys md)) \<subseteq> set (keys md)"
  by simp

lemma build_json_output_state: "well_formed md \<Longrightarrow> snd (build_json_output md) = md"
  by (simp add: build_json_output_def json_loop_closed)

lemma print_monthly_summary_state: "well_formed md \<Longrightarrow> snd (print_monthly_summary md) = md"
  by (simp add: print_monthly_summary_def text_loop_state)

text \<open>
  C9. Rendering the aggregation that \<open>process_victims\<close> returned leaves it as it is: the
  text presenter and the JSON shaping (which the JSON and the CSV presenter run) return
  the aggregation unchanged, nested \<^verbatim>\<open>defaultdict\<close> reads included; the CSV writer is
  given the shaped result only.
\<close>

theorem presenters_do_not_mutate:
  "snd (print_monthly_summary (process_victims month_key_of victims)) =
     process_victims month_key_of victims \<and>
   snd (build_json_output (process_victims month_key_of victims)) =
     process_victims month_key_of victims"
  by (simp add: build_json_output_state print_monthly_summary_state well_formed_process_victims)

section \<open>Ranking\<close>

lemma first_index_Cons:
  "first_index (x # xs) y = (if y = x then 0 else Suc (first_index xs y))"
  by (simp add: first_index_def)

lemma sorted_wrt_first_seen:
  "sorted_wrt (\<lambda>a b. first_index xs a < first_index xs b) (first_seen xs)"
proof (induction xs)
  case Nil
  then show ?case by simp
next
  case (Cons x xs)
  have "sorted_wrt (\<lambda>a b. first_index xs a < first_index xs b)
      (filter (\<lambda>y. y \<noteq> x) (first_seen xs))"
    using Cons by (rule sorted_wrt_filter)
  then have "sorted_wrt (\<lambda>a b. first_index (x # xs) a < first_index (x # xs) b)
      (filter (\<lambda>y. y \<noteq> x) (first_seen xs))"
    by (rule sorted_wrt_mono_rel [rotated]) (auto simp: first_index_Cons)
  then show ?case by (auto simp: first_index_Cons)
qed

text \<open>Insertion sort is stable: equal keys stay in the order \<open>R\<close> they had.\<close>

lemma sorted_wrt_insort_key:
  fixes f :: "'a \<Rightarrow> 'b::linorder"
  assumes "sorted_wrt (\<lambda>a b. f a < f b \<or> (f a = f b \<and> R a b)) ys"
    and "\<forall>y \<in> set ys. R x y"
  shows "sorted_wrt (\<lambda>a b. f a < f b \<or> (f a = f b \<and> R a b)) (insort_key f x ys)"
  using assms
proof (induction ys)
  case Nil
  then show ?case by simp
next
  case (Cons y ys)
  show ?case
  proof (cases "f x \<le> f y")
    case True
    have "f x < f z \<or> (f x = f z \<and> R x z)" if "z \<in> set (y # ys)" for z
    proof -
      from that Cons.prems(1) have "f y \<le> f z" by auto
      with True have "f x \<le> f z" by simp
      moreover from that Cons.prems(2) have "R x z" by auto
      ultimately show ?thesis by auto
    qed
    with True Cons.prems(1) show ?thesis by simp
  next
    case False
    then have "f y < f x" by simp
    moreover have "sorted_wrt (\<lambda>a b. f a < f b \<or> (f a = f b \<and> R a b)) (insort_key f x ys)"
      using Cons by simp
    ultimately show ?thesis using False Cons.prems(1) by (auto simp: set_insort_key)
  qed
qed

lemma sorted_wrt_sort_key_stable:
  fixes f :: "'a \<Rightarrow> 'b::linorder"
  assumes "sorted_wrt R xs"
  shows "sorted_wrt (\<lambda>a b. f a < f b \<or> (f a = f b \<and> R a b)) (sort_key f xs)"
  using assms
proof (induction xs)
  case Nil
  then show ?case by simp
next
  case (Cons x xs)
  then have "sorted_wrt (\<lambda>a b. f a < f b \<or> (f a = f b \<and> R a b)) (sort_key f xs)"
    and "\<forall>y \<in> set (sort_key f xs). R x y"
    by simp_all
  then show ?case by (simp add: sorted_wrt_insort_key)
qed

lemma most_common_split:
  "sort_key (\<lambda>(k, v). - v) c = most_common n c @ drop n (sort_key (\<lambda>(k, v). - v) c)"
  by (simp add: most_common_def)

lemma length_first_seen: "length (first_seen xs) = length (remdups xs)"
  using distinct_card [of "first_seen xs"] by (simp add: length_remdups_card_conv)

lemma in_count_seq:
  "(k, c) \<in> set (count_seq xs) \<longleftrightarrow> k \<in> set xs \<and> c = int (count_list xs k)"
  by (auto simp: count_seq_def)

lemma sorted_count_seq:
  "sorted_wrt (\<lambda>a b. outranks xs (fst a) (fst b)) (sort_key (\<lambda>(k, v). - v) (count_seq xs))"
proof -
  let ?R = "\<lambda>a b. first_index xs (fst a) < first_index xs (fst b)"
  let ?f = "\<lambda>(k, v::int). - v"
  have "sorted_wrt ?R (count_seq xs)"
    using sorted_wrt_first_seen [of xs] by (simp add: count_seq_def sorted_wrt_map)
  then have "sorted_wrt (\<lambda>a b. ?f a < ?f b \<or> (?f a = ?f b \<and> ?R a b)) (sort_key ?f (count_seq xs))"
    by (rule sorted_wrt_sort_key_stable)
  then show ?thesis
  proof (rule sorted_wrt_mono_rel [rotated])
    fix a b
    assume a: "a \<in> set (sort_key ?f (count_seq xs))"
      and b: "b \<in> set (sort_key ?f (count_seq xs))"
      and ab: "?f a < ?f b \<or> (?f a = ?f b \<and> ?R a b)"
    obtain ka ca kb cb where eq: "a = (ka, ca)" "b = (kb, cb)" by (cases a; cases b) auto
    from a b have ca: "ca = int (count_list xs ka)" and cb: "cb = int (count_list xs kb)"
      by (simp_all add: eq in_count_seq)
    from ab have "cb < ca \<or> (ca = cb \<and> first_index xs ka < first_index xs kb)"
      by (simp add: eq)
    then show "outranks xs (fst a) (fst b)"
      by (simp add: eq outranks_def ca cb)
  qed
qed

lemma top_ranked_most_common: "top_ranked n xs (most_common n (count_seq xs))"
proof -
  let ?f = "\<lambda>(k, v::int). - v"
  let ?zs = "sort_key ?f (count_seq xs)"
  let ?top = "most_common n (count_seq xs)"
  have split: "?zs = ?top @ drop n ?zs" by (rule most_common_split)
  have sorted_zs: "sorted_wrt (\<lambda>a b. outranks xs (fst a) (fst b)) ?zs"
    by (rule sorted_count_seq)
  have len: "length ?top = min n (length (remdups xs))"
    by (simp add: most_common_def length_first_seen [symmetric] count_seq_def min.commute)
  have "distinct (map fst (count_seq xs))"
    by (simp add: count_seq_def comp_def)
  then have "distinct (map fst ?zs)"
    by (simp add: distinct_map)
  then have dist: "distinct (map fst ?top)"
    by (simp add: most_common_def take_map [symmetric])
  have items: "\<forall>(k, c) \<in> set ?top. k \<in> set xs \<and> c = int (count_list xs k)"
    using most_common_subset [of n "count_seq xs"] by (auto simp: in_count_seq)
  have "sorted_wrt (\<lambda>a b. outranks xs (fst a) (fst b)) (?top @ drop n ?zs)"
    using sorted_zs by (simp add: most_common_def)
  then have sorted_top: "sorted_wrt (\<lambda>a b. outranks xs (fst a) (fst b)) ?top"
    and cross: "\<forall>a \<in> set ?top. \<forall>b \<in> set (drop n ?zs). outranks xs (fst a) (fst b)"
    unfolding sorted_wrt_append by simp_all
  have left_out: "\<forall>k \<in> set xs. k \<notin> fst ` set ?top \<longrightarrow>
      (\<forall>k' \<in> fst ` set ?top. outranks xs k' k)"
  proof (intro ballI impI)
    fix k k' assume k: "k \<in> set xs" "k \<notin> fst ` set ?top" and k': "k' \<in> fst ` set ?top"
    from k(1) have "(k, int (count_list xs k)) \<in> set ?zs" by (simp add: in_count_seq)
    then have "(k, int (count_list xs k)) \<in> set (?top @ drop n ?zs)"
      by (simp add: most_common_def)
    then have "(k, int (count_list xs k)) \<in> set ?top \<union> set (drop n ?zs)"
      by (simp only: set_append)
    with k(2) have "(k, int (count_list xs k)) \<in> set (drop n ?zs)" by force
    moreover from k' obtain a where "a \<in> set ?top" "k' = fst a" by auto
    ultimately show "outranks xs k' k" using cross by force
  qed
  show ?thesis
    unfolding top_ranked_def by (intro conjI len dist items sorted_top left_out)
qed

section \<open>The shaped result\<close>

lemma fold_setitem_fresh:
  "distinct ms \<Longrightarrow> set ms \<inter> set (keys out) = {} \<Longrightarrow>
   fold (\<lambda>m out. dict_setitem out m (g m)) ms out = out @ map (\<lambda>m. (m, g m)) ms"
proof (induction ms arbitrary: out)
  case Nil
  then show ?case by simp
next
  case (Cons m ms)
  from Cons.prems have fresh: "m \<notin> set (keys out)" by simp
  then have step: "dict_setitem out m (g m) = out @ [(m, g m)]"
    by (simp add: dict_setitem_def)
  from Cons.prems have "set ms \<inter> set (keys (out @ [(m, g m)])) = {}"
    by (auto simp: keys_def)
  with Cons.IH [of "out @ [(m, g m)]"] Cons.prems(1) show ?case
    by (simp add: step)
qed

lemma build_json_output_closed:
  assumes "well_formed md"
  shows "fst (build_json_output md) =
     map (\<lambda>m. (m, shape_month (dd_peek new_month md m))) (sort (keys md))"
proof -
  have "distinct (sort (keys md))"
    using assms by (simp add: well_formed_def)
  then show ?thesis
    using assms by (simp add: build_json_output_def json_loop_closed fold_setitem_fresh)
qed

lemma dd_peek_process_victims:
  "m \<in> set (months_seen p vs) \<Longrightarrow>
   dd_peek new_month (process_victims p vs) m = month_agg (month_records p m vs)"
  by (simp add: dd_peek_def process_victims_closed map_of_tabulate)

lemma json_of_process_victims:
  "fst (build_json_output (process_victims p vs)) =
     map (\<lambda>m. (m, shape_month (month_agg (month_records p m vs)))) (sort (months_seen p vs))"
  by (simp add: build_json_output_closed well_formed_process_victims keys_process_victims
      dd_peek_process_victims)

lemma entry_pairs_sector_entries [simp]: "entry_pairs (sector_entries items) = items"
  by (induction items) (auto simp: entry_pairs_def sector_entries_def)

lemma country_pairs_shape:
  "country_pairs (top_countries (shape_month data)) = most_common 10 (countries data)"
  by (simp add: shape_month_def country_pairs_def comp_def case_prod_beta)

lemma dd_peek_country_sectors:
  "dd_peek [] (country_sectors (month_agg rs)) c =
     (if c \<in> country_of ` set rs
      then count_seq (map sector_of (filter (\<lambda>v. country_of v = c) rs)) else [])"
  by (simp add: dd_peek_def month_agg_def map_of_tabulate)

lemma count_seq_Nil [simp]: "count_seq [] = []"
  by (simp add: count_seq_def)

lemma filter_country_empty:
  "c \<notin> country_of ` set rs \<Longrightarrow> filter (\<lambda>v. country_of v = c) rs = []"
  by (auto simp: filter_empty_conv)

lemma dd_peek_country_sectors':
  "dd_peek [] (country_sectors (month_agg rs)) c =
     count_seq (map sector_of (filter (\<lambda>v. country_of v = c) rs))"
  by (simp add: dd_peek_country_sectors filter_country_empty)

lemma sector_entries_Nil_iff [simp]: "sector_entries items = [] \<longleftrightarrow> items = []"
  by (simp add: sector_entries_def)

lemma map_sector_entries:
  "map (\<lambda>e. pre @ sector e @ '': '' @ str_int (sector_count e)) (sector_entries items) =
   map (\<lambda>(sec, n). pre @ sec @ '': '' @ str_int n) items"
  by (simp add: sector_entries_def comp_def case_prod_beta)

lemma text_countries_step:
  assumes "cntry \<in> set (keys cs)"
  shows "text_countries_loop cs out ((cntry, n) # rest) =
     text_countries_loop cs
       (out @ country_lines
          \<lparr>country_name = cntry, country_count = n,
           country_top_sectors = sector_entries (most_common 3 (dd_peek [] cs cntry))\<rparr>)
       rest"
proof -
  have lines: "(if sb \<noteq> [] then
        (out @ [''    - '' @ cntry @ '': '' @ str_int n]) @
          [''       '' @ Fore_YELLOW @ ''Affected sectors:''] @
          map (\<lambda>(sec, sec_count). ''         * '' @ sec @ '': '' @ str_int sec_count) sb
      else out @ [''    - '' @ cntry @ '': '' @ str_int n]) =
      out @ country_lines
        \<lparr>country_name = cntry, country_count = n, country_top_sectors = sector_entries sb\<rparr>"
    for sb
    by (cases "sb = []") (simp_all add: country_lines_def sector_entries_def comp_def case_prod_beta)
  show ?thesis
    by (simp only: text_countries_loop.simps dd_getitem_present [OF assms] prod.case Let_def lines)
qed

lemma text_countries_loop_closed:
  assumes "\<forall>(c, n) \<in> set items. c \<in> set (keys cs)"
  shows "text_countries_loop cs out items =
     (out @ concat (map (\<lambda>(c, n). country_lines
                \<lparr>country_name = c, country_count = n,
                 country_top_sectors = sector_entries (most_common 3 (dd_peek [] cs c))\<rparr>) items),
      cs)"
  using assms
proof (induction items arbitrary: out)
  case Nil
  then show ?case by simp
next
  case (Cons a items)
  obtain c n where a: "a = (c, n)" by (cases a)
  with Cons.prems have present: "c \<in> set (keys cs)"
    and rest: "\<forall>(c, n) \<in> set items. c \<in> set (keys cs)"
    by simp_all
  show ?case
    unfolding a text_countries_step [OF present] Cons.IH [OF rest] by simp
qed

lemma text_loop_step:
  assumes "well_formed md" "m \<in> set (keys md)"
  shows "text_loop md out (m # months) =
     text_loop md (out @ month_lines m (shape_month (dd_peek new_month md m))) months"
proof -
  let ?data = "dd_peek new_month md m"
  note wf = well_formed_entry [OF assms]
  have wb: "dict_setitem md m (?data\<lparr>country_sectors := country_sectors ?data\<rparr>) = md"
    using assms(1) wf(1) by (simp add: well_formed_def dict_setitem_same)
  have countries: "map (\<lambda>(c, n). country_lines \<lparr>country_name = c, country_count = n,
              country_top_sectors = sector_entries (most_common 3 (dd_peek [] cs c))\<rparr>) items =
      map country_lines
        (map (\<lambda>(c, n). \<lparr>country_name = c, country_count = n,
              country_top_sectors = sector_entries (most_common 3 (dd_peek [] cs c))\<rparr>) items)"
    for cs items
    by (simp add: comp_def case_prod_beta)
  have lines: "((out @
        [[CHR 0x0A] @ Fore_CYAN @ ''Month: '' @ m @ Style_RESET_ALL,
         ''  '' @ Fore_GREEN @ ''Total victims: '' @ str_int (total ?data) @ Style_RESET_ALL,
         ''  '' @ Fore_MAGENTA @ ''Top sectors:''] @
        map (\<lambda>(sec, n). ''    - '' @ sec @ '': '' @ str_int n) (most_common 10 (sectors ?data)) @
        [''  '' @ Fore_BLUE @ ''Top countries:'']) @
       concat (map (\<lambda>(c, n). country_lines \<lparr>country_name = c, country_count = n,
              country_top_sectors =
                sector_entries (most_common 3 (dd_peek [] (country_sectors ?data) c))\<rparr>)
          (most_common 10 (countries ?data)))) @
      [Style_RESET_ALL] =
      out @ month_lines m (shape_month ?data)"
    unfolding countries
    by (simp add: month_lines_def shape_month_def sector_entries_def comp_def case_prod_beta)
  show ?thesis
    by (simp only: text_loop.simps dd_getitem_present [OF assms(2)] prod.case Let_def
        text_countries_loop_closed [OF wf(2)] wb lines)
qed

lemma text_loop_closed:
  assumes "well_formed md" "set months \<subseteq> set (keys md)"
  shows "text_loop md out months =
     (out @ concat (map (\<lambda>m. month_lines m (shape_month (dd_peek new_month md m))) months), md)"
  using assms(2)
proof (induction months arbitrary: out)
  case Nil
  then show ?case by simp
next
  case (Cons m months)
  then have m: "m \<in> set (keys md)" and rest: "set months \<subseteq> set (keys md)" by simp_all
  show ?case
    unfolding text_loop_step [OF assms(1) m] Cons.IH [OF rest] by simp
qed

lemma print_monthly_summary_closed:
  assumes "well_formed md"
  shows "fst (print_monthly_summary md) = text_report (fst (build_json_output md))"
proof (cases "md = []")
  case True
  then show ?thesis
    by (simp add: print_monthly_summary_def text_report_def build_json_output_def)
next
  case False
  then have "sort (keys md) \<noteq> []"
    by (metis keys_def length_sort length_map length_0_conv)
  then show ?thesis
    using False assms
    by (simp add: print_monthly_summary_def text_report_def build_json_output_closed
        text_loop_closed comp_def)
qed

text \<open>
  C5. In every month of the shaped result, the listed sectors are the ten best ranked
  sectors of the month's records and the listed countries the ten best ranked
  countries, and for each listed country its listed sectors are the three best ranked
  sectors of the country's records of that month (fewer when fewer exist); an entry
  ranks before another when it was counted more often, or as often and a record with
  it came first in the input. The text report is written from the same lists.
\<close>

theorem ranking_selects_top:
  assumes "(m, summary) \<in> set (fst (build_json_output (process_victims month_key_of victims)))"
  shows "top_ranked 10 (map sector_of (month_records month_key_of m victims))
           (entry_pairs (top_sectors summary)) \<and>
         top_ranked 10 (map country_of (month_records month_key_of m victims))
           (country_pairs (top_countries summary)) \<and>
         (\<forall>ce \<in> set (top_countries summary).
            top_ranked 3
              (map sector_of
                 (filter (\<lambda>v. country_of v = country_name ce)
                    (month_records month_key_of m victims)))
              (entry_pairs (country_top_sectors ce))) \<and>
         fst (print_monthly_summary (process_victims month_key_of victims)) =
           text_report (fst (build_json_output (process_victims month_key_of victims)))"
proof -
  define rs where "rs = month_records month_key_of m victims"
  from assms have summary: "summary = shape_month (month_agg rs)"
    by (auto simp: json_of_process_victims rs_def)
  have s1: "entry_pairs (top_sectors summary) = most_common 10 (count_seq (map sector_of rs))"
    by (simp add: summary shape_month_def month_agg_def)
  have s2: "country_pairs (top_countries summary) = most_common 10 (count_seq (map country_of rs))"
    by (simp add: summary country_pairs_shape) (simp add: month_agg_def)
  have s3: "entry_pairs (country_top_sectors ce) =
      most_common 3 (count_seq (map sector_of (filter (\<lambda>v. country_of v = country_name ce) rs)))"
    if "ce \<in> set (top_countries summary)" for ce
    using that by (auto simp: summary shape_month_def dd_peek_country_sectors')
  have s4: "fst (print_monthly_summary (process_victims month_key_of victims)) =
      text_report (fst (build_json_output (process_victims month_key_of victims)))"
    by (rule print_monthly_summary_closed) (rule well_formed_process_victims)
  show ?thesis
    unfolding rs_def [symmetric]
    by (intro conjI ballI s4) (simp_all add: s1 s2 s3 top_ranked_most_common)
qed

lemma example_shaped:
  "fst (build_json_output (process_victims iso_date_month example_victims)) =
     [(''2023-01'',
       \<lparr>total_victims = 3,
        top_sectors =
          [\<lparr>sector = ''Healthcare'', sector_count = 2\<rparr>,
           \<lparr>sector = ''Not Identified'', sector_count = 1\<rparr>],
        top_countries =
          [\<lparr>country_name = ''US'', country_count = 2,
            country_top_sectors =
              [\<lparr>sector = ''Healthcare'', sector_count = 1\<rparr>,
               \<lparr>sector = ''Not Identified'', sector_count = 1\<rparr>]\<rparr>,
           \<lparr>country_name = ''Not Identified'', country_count = 1,
            country_top_sectors = [\<lparr>sector = ''Healthcare'', sector_count = 1\<rparr>]\<rparr>]\<rparr>),
      (''2023-02'',
       \<lparr>total_victims = 1,
        top_sectors = [\<lparr>sector = ''Finance'', sector_count = 1\<rparr>],
        top_countries =
          [\<lparr>country_name = ''DE'', country_count = 1,
            country_top_sectors = [\<lparr>sector = ''Finance'', sector_count = 1\<rparr>]\<rparr>]\<rparr>)]"
  by code_simp

lemma example_month_sectors:
  "map sector_of (month_records iso_date_month ''2023-01'' example_victims) =
     [''Healthcare'', ''Not Identified'', ''Healthcare'']"
  by code_simp

lemma example_us_sectors:
  "map sector_of (filter (\<lambda>v. country_of v = ''US'')
     (month_records iso_date_month ''2023-01'' example_victims)) =
     [''Healthcare'', ''Not Identified'']"
  by code_simp

theorem ranking_selects_top_witness:
  "(''2023-01'',
     \<lparr>total_victims = 3,
      top_sectors =
        [\<lparr>sector = ''Healthcare'', sector_count = 2\<rparr>,
         \<lparr>sector = ''Not Identified'', sector_count = 1\<rparr>],
      top_countries =
        [\<lparr>country_name = ''US'', country_count = 2,
          country_top_sectors =
            [\<lparr>sector = ''Healthcare'', sector_count = 1\<rparr>,
             \<lparr>sector = ''Not Identified'', sector_count = 1\<rparr>]\<rparr>,
         \<lparr>country_name = ''Not Identified'', country_count = 1,
          country_top_sectors = [\<lparr>sector = ''Healthcare'', sector_count = 1\<rparr>]\<rparr>]\<rparr>)
     \<in> set (fst (build_json_output (process_victims iso_date_month example_victims))) \<and>
   top_ranked 10 [''Healthcare'', ''Not Identified'', ''Healthcare'']
     [(''Healthcare'', 2), (''Not Identified'', 1)] \<and>
   top_ranked 3 [''Healthcare'', ''Not Identified'']
     [(''Healthcare'', 1), (''Not Identified'', 1)]"
proof -
  let ?s = "\<lparr>total_victims = 3,
      top_sectors =
        [\<lparr>sector = ''Healthcare'', sector_count = 2\<rparr>,
         \<lparr>sector = ''Not Identified'', sector_count = 1\<rparr>],
      top_countries =
        [\<lparr>country_name = ''US'', country_count = 2,
          country_top_sectors =
            [\<lparr>sector = ''Healthcare'', sector_count = 1\<rparr>,
             \<lparr>sector = ''Not Identified'', sector_count = 1\<rparr>]\<rparr>,
         \<lparr>country_name = ''Not Identified'', country_count = 1,
          country_top_sectors = [\<lparr>sector = ''Healthcare'', sector_count = 1\<rparr>]\<rparr>]\<rparr>"
  have h: "(''2023-01'', ?s) \<in>
      set (fst (build_json_output (process_victims iso_date_month example_victims)))"
    by (simp add: example_shaped)
  from ranking_selects_top [OF h] show ?thesis
    using h by (simp add: entry_pairs_def example_month_sectors example_us_sectors)
qed

section \<open>JSON and CSV render the same shaped result\<close>




section \<open>The fetcher and the program\<close>

text \<open>
  C7. The fetcher returns the parsed body when the status is 200 and the body parses.
  On any other status, on a transport exception and on a parse exception it prints one
  diagnostic line and returns the empty sequence, which is also what it returns for a
  successful fetch of an empty array.
\<close>

theorem fetcher_outcomes:
  "(http_get e (base_url @ g) = Response 200 (Json_Body victims) \<longrightarrow>
      get_victims_by_group e g = ([], victims)) \<and>
   (http_get e (base_url @ g) = Response status body \<and> status \<noteq> 200 \<longrightarrow>
      get_victims_by_group e g = ([''Error: '' @ str_int status], [])) \<and>
   (http_get e (base_url @ g) = Response 200 (Json_Error ex) \<or>
    http_get e (base_url @ g) = Request_Error ex \<longrightarrow>
      get_victims_by_group e g = ([''An error occurred: '' @ ex], [])) \<and>
   (http_get e (base_url @ g) \<noteq> Response 200 (Json_Body (snd (get_victims_by_group e g))) \<longrightarrow>
      length (fst (get_victims_by_group e g)) = 1 \<and>
      snd (get_victims_by_group e g) = [] \<and>
      (http_get e' (base_url @ g) = Response 200 (Json_Body []) \<longrightarrow>
         snd (get_victims_by_group e g) = snd (get_victims_by_group e' g)))"
  by (auto simp: get_victims_by_group_def Let_def split: http_outcome.splits json_result.splits)

lemma str_int_404: "str_int 404 = ''404''"
  by code_simp

theorem fetcher_outcomes_witness:
  "get_victims_by_group (env_answering (Response 200 (Json_Body example_victims))) ''lockbit'' =
     ([], example_victims) \<and>
   get_victims_by_group (env_answering (Response 404 (Json_Error ''no JSON''))) ''lockbit'' =
     ([''Error: 404''], []) \<and>
   get_victims_by_group (env_answering (Response 200 (Json_Error ''no JSON''))) ''lockbit'' =
     ([''An error occurred: no JSON''], []) \<and>
   get_victims_by_group (env_answering (Request_Error ''timed out'')) ''lockbit'' =
     ([''An error occurred: timed out''], []) \<and>
   snd (get_victims_by_group (env_answering (Request_Error ''timed out'')) ''lockbit'') =
     snd (get_victims_by_group (env_answering (Response 200 (Json_Body []))) ''lockbit'')"
proof -
  have a: "http_get (env_answering r) url = r" for r url
    by (simp add: env_answering_def)
  note ok = fetcher_outcomes [of "env_answering (Response 200 (Json_Body example_victims))"
      "''lockbit''" example_victims]
  note nf = fetcher_outcomes [of "env_answering (Response 404 (Json_Error ''no JSON''))"
      "''lockbit''" _ 404 "Json_Error ''no JSON''"]
  note pe = fetcher_outcomes [of "env_answering (Response 200 (Json_Error ''no JSON''))"
      "''lockbit''" _ _ _ "''no JSON''"]
  note te = fetcher_outcomes [of "env_answering (Request_Error ''timed out'')"
      "''lockbit''" _ _ _ "''timed out''" "env_answering (Response 200 (Json_Body []))"]
  from ok have 1: "get_victims_by_group (env_answering (Response 200 (Json_Body example_victims)))
      ''lockbit'' = ([], example_victims)"
    by (simp add: a)
  from nf have 2: "get_victims_by_group (env_answering (Response 404 (Json_Error ''no JSON'')))
      ''lockbit'' = ([''Error: 404''], [])"
    by (simp add: a str_int_404)
  from pe have 3: "get_victims_by_group (env_answering (Response 200 (Json_Error ''no JSON'')))
      ''lockbit'' = ([''An error occurred: no JSON''], [])"
    by (simp add: a)
  from te have 4: "get_victims_by_group (env_answering (Request_Error ''timed out''))
      ''lockbit'' = ([''An error occurred: timed out''], [])"
    and 5: "snd (get_victims_by_group (env_answering (Request_Error ''timed out'')) ''lockbit'') =
      snd (get_victims_by_group (env_answering (Response 200 (Json_Body []))) ''lockbit'')"
    by (auto simp: a)
  from 1 2 3 4 5 show ?thesis by blast
qed




text \<open>
  C10. A fetched sequence that is not empty but holds only records the aggregator
  skips does not end the run early: the run goes past the no-records check and renders
  an empty report. The text presenter prints \<open>No data to display.\<close>, the JSON presenter
  is given the empty object, and the CSV presenter the header and no row.
\<close>

theorem unparsable_records_render_empty_report:
  "unparsable_victims \<noteq> [] \<and>
   map (month_of iso_date_month) unparsable_victims = [None, None, None] \<and>
   main iso_date_month (env_answering (Response 200 (Json_Body unparsable_victims)))
     \<lparr>group = ''lockbit'', fmt = normal, output_file = None\<rparr> =
     [Print ''Searching for victims for the group: lockbit ...'',
      Print (Fore_YELLOW @ ''No data to display.'' @ Style_RESET_ALL)] \<and>
   main iso_date_month (env_answering (Response 200 (Json_Body unparsable_victims)))
     \<lparr>group = ''lockbit'', fmt = json, output_file = None\<rparr> =
     [Print ''Searching for victims for the group: lockbit ...'', Print_Json []] \<and>
   main iso_date_month (env_answering (Response 200 (Json_Body unparsable_victims)))
     \<lparr>group = ''lockbit'', fmt = csv, output_file = None\<rparr> =
     [Print ''Searching for victims for the group: lockbit ...'',
      Csv_Stdout [''Month'', ''Total Victims'', ''Top Sectors'', ''Top Countries''] []]"
proof -
  have ne: "unparsable_victims \<noteq> []"
    by (simp add: unparsable_victims_def)
  have skipped: "map (month_of iso_date_month) unparsable_victims = [None, None, None]"
    by code_simp
  have agg: "process_victims iso_date_month unparsable_victims = []"
    by code_simp
  have name: "lower (strip ''lockbit'') = ''lockbit''"
    by code_simp
  have fetch: "get_victims_by_group (env_answering (Response 200 (Json_Body unparsable_victims)))
      ''lockbit'' = ([], unparsable_victims)"
    by (simp add: get_victims_by_group_def env_answering_def)
  have empty_json: "build_json_output [] = ([], [])"
    by (simp add: build_json_output_def keys_def)
  show ?thesis
    using ne skipped
    by (simp add: main_def name fetch render_def agg print_monthly_summary_def empty_json
        write_csv_output_def csv_rows_def csv_header_def)
qed

section \<open>The order of the input\<close>

lemma map_insort_key:
  fixes f :: "'b \<Rightarrow> 'c::linorder"
  shows "map g (insort_key (\<lambda>x. f (g x)) x ys) = insort_key f (g x) (map g ys)"
  by (induction ys) simp_all

lemma map_sort_key:
  fixes f :: "'b \<Rightarrow> 'c::linorder"
  shows "map g (sort_key (\<lambda>x. f (g x)) xs) = sort_key f (map g xs)"
  by (induction xs) (simp_all add: map_insort_key)

lemma sort_key_uminus_mset:
  fixes xs ys :: "int list"
  assumes "mset xs = mset ys"
  shows "sort_key uminus xs = sort_key uminus ys"
proof -
  have neg: "map uminus (sort_key uminus zs) = sort (map uminus zs)" for zs :: "int list"
    using map_sort_key [of uminus "\<lambda>x. x" zs] by simp
  have "mset (map uminus xs) = mset (map uminus ys)"
    using assms by simp
  then have "sort (map uminus xs) = sort (map uminus ys)"
    by (intro properties_for_sort) simp_all
  then have "map uminus (sort_key uminus xs) = map uminus (sort_key uminus ys)"
    by (simp add: neg)
  then have "map uminus (map uminus (sort_key uminus xs)) =
      map uminus (map uminus (sort_key uminus ys))"
    by simp
  then show ?thesis by (simp add: comp_def)
qed

lemma map_snd_most_common:
  "map snd (most_common n c) = take n (sort_key uminus (map snd c))"
proof -
  have "(\<lambda>(k, v). - v) = (\<lambda>x :: 'a \<times> int. - snd x)" by (simp add: fun_eq_iff)
  then have "map snd (sort_key (\<lambda>(k, v). - v) c) = sort_key uminus (map snd c)"
    using map_sort_key [of snd uminus c] by simp
  then show ?thesis
    by (simp add: most_common_def take_map [symmetric])
qed

lemma first_seen_mset:
  assumes "mset xs = mset ys"
  shows "mset (first_seen xs) = mset (first_seen ys)"
proof -
  from assms have "set xs = set ys" by (rule mset_eq_setD)
  then have "set (first_seen xs) = set (first_seen ys)" by simp
  then show ?thesis
    by (rule iffD1 [OF set_eq_iff_mset_eq_distinct, rotated 2]) simp_all
qed

lemma count_values_mset:
  assumes "mset xs = mset ys"
  shows "mset (map snd (count_seq xs)) = mset (map snd (count_seq ys))"
proof -
  have cnt: "count_list xs k = count_list ys k" for k
    using assms by (simp flip: count_mset)
  have "mset (map snd (count_seq xs)) =
      image_mset (\<lambda>k. int (count_list xs k)) (mset (first_seen xs))"
    by (simp add: count_seq_def comp_def)
  also have "\<dots> = image_mset (\<lambda>k. int (count_list ys k)) (mset (first_seen ys))"
    by (simp add: cnt first_seen_mset [OF assms])
  also have "\<dots> = mset (map snd (count_seq ys))"
    by (simp add: count_seq_def comp_def)
  finally show ?thesis .
qed

lemma top_counts_mset:
  assumes "mset xs = mset ys"
  shows "map snd (most_common n (count_seq xs)) = map snd (most_common n (count_seq ys))"
  by (simp add: map_snd_most_common sort_key_uminus_mset [OF count_values_mset [OF assms]])

lemma sector_counts_shape:
  "map sector_count (top_sectors (shape_month data)) = map snd (most_common 10 (sectors data))"
  by (simp add: shape_month_def sector_entries_def comp_def case_prod_beta)

lemma country_counts_shape:
  "map country_count (top_countries (shape_month data)) =
     map snd (most_common 10 (countries data))"
  by (simp add: shape_month_def comp_def case_prod_beta)

lemma ranking_counts_mset:
  assumes "mset rs = mset rs'"
  shows "ranking_counts (shape_month (month_agg rs)) = ranking_counts (shape_month (month_agg rs'))"
proof -
  have len: "length rs = length rs'"
    using assms by (rule mset_eq_length)
  have sec: "mset (map sector_of rs) = mset (map sector_of rs')"
    and cou: "mset (map country_of rs) = mset (map country_of rs')"
    using assms by simp_all
  show ?thesis
    unfolding ranking_counts_def sector_counts_shape country_counts_shape
    by (simp add: month_agg_def shape_month_def len top_counts_mset [OF sec]
        top_counts_mset [OF cou])
qed

lemma sort_months_seen_mset:
  assumes "mset vs = mset vs'"
  shows "sort (months_seen p vs) = sort (months_seen p vs')"
proof -
  from assms have "set vs = set vs'" by (rule mset_eq_setD)
  then have "set (months_seen p vs) = set (months_seen p vs')"
    by (simp add: set_months_seen)
  then have "set (months_seen p vs') = set (months_seen p vs)" by simp
  then have "mset (months_seen p vs') = mset (months_seen p vs)"
    by (rule iffD1 [OF set_eq_iff_mset_eq_distinct, rotated 2]) (simp_all add: months_seen_def)
  then show ?thesis
    by (intro properties_for_sort) simp_all
qed

text \<open>
  C4. Two inputs that are permutations of each other give aggregations with the same
  months and, month by month, the same total, sector counts, country counts and
  per-country sector counts. The shaped results then list the same months with the
  same totals and the same sequences of counts in the top sector and top country
  lists: only which of several equally counted keys stands at a position can differ.
\<close>

theorem aggregation_order_independent:
  assumes "mset victims = mset victims'"
  shows "set (keys (process_victims month_key_of victims)) =
           set (keys (process_victims month_key_of victims')) \<and>
         (\<forall>m. month_view (process_victims month_key_of victims) m =
               month_view (process_victims month_key_of victims') m) \<and>
         map (\<lambda>(m, s). (m, ranking_counts s))
           (fst (build_json_output (process_victims month_key_of victims))) =
         map (\<lambda>(m, s). (m, ranking_counts s))
           (fst (build_json_output (process_victims month_key_of victims')))"
proof -
  from assms have "set victims = set victims'" by (rule mset_eq_setD)
  then have seen: "set (months_seen month_key_of victims) = set (months_seen month_key_of victims')"
    by (simp add: set_months_seen)
  have "view_of_month (month_agg (month_records month_key_of m victims)) =
      view_of_month (month_agg (month_records month_key_of m victims'))" for m
    using assms by (intro view_of_month_agg_mset mset_month_records)
  with seen have views: "set (keys (process_victims month_key_of victims)) =
      set (keys (process_victims month_key_of victims')) \<and>
      (\<forall>m. month_view (process_victims month_key_of victims) m =
            month_view (process_victims month_key_of victims') m)"
    by (simp add: keys_process_victims month_view_process_victims)
  have "ranking_counts (shape_month (month_agg (month_records month_key_of m victims))) =
      ranking_counts (shape_month (month_agg (month_records month_key_of m victims')))" for m
    using assms by (intro ranking_counts_mset mset_month_records)
  then have "map (\<lambda>(m, s). (m, ranking_counts s))
      (fst (build_json_output (process_victims month_key_of victims))) =
      map (\<lambda>(m, s). (m, ranking_counts s))
      (fst (build_json_output (process_victims month_key_of victims')))"
    by (simp add: json_of_process_victims comp_def sort_months_seen_mset [OF assms])
  with views show ?thesis by blast
qed

theorem aggregation_order_independent_witness:
  "mset (rev example_victims) = mset example_victims \<and>
   set (keys (process_victims iso_date_month (rev example_victims))) =
     set (keys (process_victims iso_date_month example_victims)) \<and>
   month_view (process_victims iso_date_month (rev example_victims)) ''2023-01'' =
     month_view (process_victims iso_date_month example_victims) ''2023-01'' \<and>
   map (\<lambda>(m, s). (m, ranking_counts s))
     (fst (build_json_output (process_victims iso_date_month (rev example_victims)))) =
   map (\<lambda>(m, s). (m, ranking_counts s))
     (fst (build_json_output (process_victims iso_date_month example_victims)))"
proof -
  have h: "mset (rev example_victims) = mset example_victims" by simp
  from aggregation_order_independent [OF h, of iso_date_month] show ?thesis
    using h by simp
qed

text \<open>An example of such a difference: two sectors counted once each, in either order.\<close>

lemma tie_order_follows_input:
  "map sector (top_sectors (snd (hd (fst (build_json_output (process_victims iso_date_month
     [\<lparr>discovered = Some ''2024-03-01'', activity = Some ''Energy'', country = Some ''FR''\<rparr>,
      \<lparr>discovered = Some ''2024-03-02'', activity = Some ''Retail'', country = Some ''FR''\<rparr>])))))) =
     [''Energy'', ''Retail''] \<and>
   map sector (top_sectors (snd (hd (fst (build_json_output (process_victims iso_date_month
     [\<lparr>discovered = Some ''2024-03-02'', activity = Some ''Retail'', country = Some ''FR''\<rparr>,
      \<lparr>discovered = Some ''2024-03-01'', activity = Some ''Energy'', country = Some ''FR''\<rparr>])))))) =
     [''Retail'', ''Energy'']"
  by code_simp

end
